theory Spec2Isabelle
  imports Complex_Main "HOL-Library.Word"
begin

section \<open>Shared C++ notions\<close>

text \<open>
  The examples are independent programs. What they share is the C++ vocabulary: the type
  \<open>int\<close>, whose arithmetic is undefined outside its range, the decimal text that
  \<open>operator<<\<close> and \<open>std::to_string\<close> produce for an \<open>int\<close>, and the standard
  exceptions. A program's output is the list of the strings it writes, in order.
\<close>

definition INT_MIN :: int where
  "INT_MIN = - 2147483648"

definition INT_MAX :: int where
  "INT_MAX = 2147483647"

text \<open>The result of an \<open>int\<close> operation: \<open>None\<close> stands for signed overflow, which is
  undefined behaviour.\<close>

definition as_int :: "int \<Rightarrow> int option" where
  "as_int v = (if INT_MIN \<le> v \<and> v \<le> INT_MAX then Some v else None)"

definition digit_char :: "nat \<Rightarrow> char" where
  "digit_char d = ''0123456789'' ! (d mod 10)"

function digits :: "nat \<Rightarrow> string" where
  "digits n = (if n < 10 then [digit_char n] else digits (n div 10) @ [digit_char (n mod 10)])"
  by pat_completeness auto
termination
  by (relation "measure id") auto

definition to_string :: "int \<Rightarrow> string" where
  "to_string v = (if v < 0 then CHR ''-'' # digits (nat (- v)) else digits (nat v))"

datatype exn = invalid_argument string | out_of_range string

fun what :: "exn \<Rightarrow> string" where
  "what (invalid_argument m) = m"
| "what (out_of_range m) = m"

section \<open>The functor map snippet\<close>

text \<open>
  \<^verbatim>\<open>int operator()(int x) const { return x * 2; }\<close>
\<close>

definition MultiplyByTwo :: "int \<Rightarrow> int option" where
  "MultiplyByTwo x = as_int (x * 2)"

text \<open>\<open>std::transform(first, last, first, f)\<close> over a whole vector, written back in place:
  the elements are visited from the front, and the first undefined call ends the run.\<close>

fun transform :: "(int \<Rightarrow> int option) \<Rightarrow> int list \<Rightarrow> int list option" where
  "transform f [] = Some []"
| "transform f (x # xs) =
     (case f x of
        None \<Rightarrow> None
      | Some y \<Rightarrow> (case transform f xs of None \<Rightarrow> None | Some ys \<Rightarrow> Some (y # ys)))"

text \<open>\<^verbatim>\<open>for (int val : vec) { std::cout << val << " "; }\<close>\<close>

fun print_vec :: "int list \<Rightarrow> string" where
  "print_vec [] = []"
| "print_vec (val # vec) = to_string val @ '' '' @ print_vec vec"

definition functor_vec :: "int list" where
  "functor_vec = [1, 2, 3, 4, 5]"

definition functor_main :: "(string \<times> int) option" where
  "functor_main =
     (case transform MultiplyByTwo functor_vec of
        None \<Rightarrow> None
      | Some vec \<Rightarrow> Some (print_vec vec, 0))"

lemma digits_small: "n < 10 \<Longrightarrow> digits n = [digit_char n]"
  by simp

lemma transform_map:
  "list_all (\<lambda>x. f x \<noteq> None) xs \<Longrightarrow> transform f xs = Some (map (\<lambda>x. the (f x)) xs)"
  by (induction xs) auto

lemma transform_length: "transform f xs = Some ys \<Longrightarrow> length ys = length xs"
  by (induction xs arbitrary: ys) (auto split: option.splits)

text \<open>
  Claim C8. Applying \<open>std::transform\<close> with the \<open>MultiplyByTwo\<close> functor to the vector
  \<open>{1, 2, 3, 4, 5}\<close> in place yields \<open>{2, 4, 6, 8, 10}\<close>, every element \<open>x\<close> being
  replaced by \<open>2 * x\<close>, and the program prints \<open>2 4 6 8 10\<close> followed by a blank, returning 0.
\<close>

theorem functor_main_output:
  "transform MultiplyByTwo functor_vec = Some [2, 4, 6, 8, 10]
   \<and> transform MultiplyByTwo functor_vec = Some (map (\<lambda>x. 2 * x) functor_vec)
   \<and> functor_main = Some (''2 4 6 8 10 '', 0)"
  by (simp add: functor_main_def functor_vec_def MultiplyByTwo_def as_int_def INT_MIN_def
      INT_MAX_def to_string_def digit_char_def)

section \<open>The map iteration snippet\<close>

text \<open>
  \<^verbatim>\<open>int incrementValue(int x) { return x + 1; }\<close>
\<close>

definition incrementValue :: "int \<Rightarrow> int option" where
  "incrementValue x = as_int (x + 1)"

text \<open>A \<open>std::map<int, int>\<close> is kept as the list of its entries in iteration order, that
  is by ascending key. Its initializer-list constructor inserts the pairs one after the
  other, and an insertion whose key is already there changes nothing.\<close>

type_synonym int_map = "(int \<times> int) list"

fun map_insert :: "int \<times> int \<Rightarrow> int_map \<Rightarrow> int_map" where
  "map_insert (k, v) [] = [(k, v)]"
| "map_insert (k, v) ((k', v') # m) =
     (if k < k' then (k, v) # (k', v') # m
      else if k = k' then (k', v') # m
      else (k', v') # map_insert (k, v) m)"

definition map_init :: "(int \<times> int) list \<Rightarrow> int_map" where
  "map_init ps = foldl (\<lambda>m p. map_insert p m) [] ps"

text \<open>\<^verbatim>\<open>for (auto& pair : myMap) { pair.second = incrementValue(pair.second); }\<close>\<close>

fun increment_loop :: "int_map \<Rightarrow> int_map option" where
  "increment_loop [] = Some []"
| "increment_loop ((first, second) # m) =
     (case incrementValue second of
        None \<Rightarrow> None
      | Some second' \<Rightarrow>
          (case increment_loop m of
             None \<Rightarrow> None
           | Some m' \<Rightarrow> Some ((first, second') # m')))"

text \<open>\<^verbatim>\<open>for (const auto& pair : myMap) { std::cout << pair.first << ": " << pair.second << std::endl; }\<close>
  One string per line, without the line end.\<close>

fun print_map :: "int_map \<Rightarrow> string list" where
  "print_map [] = []"
| "print_map ((first, second) # m) = (to_string first @ '': '' @ to_string second) # print_map m"

definition myMap :: int_map where
  "myMap = map_init [(1, 10), (2, 20), (3, 30)]"

definition map_iteration_main :: "(string list \<times> int) option" where
  "map_iteration_main =
     (case increment_loop myMap of
        None \<Rightarrow> None
      | Some m \<Rightarrow> Some (print_map m, 0))"

lemma increment_loop_frame:
  "increment_loop m = Some m' \<Longrightarrow>
     map fst m' = map fst m \<and> length m' = length m \<and> map snd m' = map (\<lambda>v. v + 1) (map snd m)"
  by (induction m arbitrary: m')
    (auto simp: incrementValue_def as_int_def split: option.splits if_splits)

lemma myMap_entries: "myMap = [(1, 10), (2, 20), (3, 30)]"
  by (simp add: myMap_def map_init_def)

text \<open>
  Claim C9. Starting from \<open>{{1,10},{2,20},{3,30}}\<close>, the value-update loop replaces every
  value \<open>v\<close> by \<open>incrementValue(v) = v + 1\<close> and leaves the keys and the number of entries as
  they were, so that the program prints the lines \<open>1: 11\<close>, \<open>2: 21\<close> and \<open>3: 31\<close>.
\<close>

theorem map_iteration_main_output:
  "(\<exists>m. increment_loop myMap = Some m
        \<and> map fst m = map fst myMap
        \<and> length m = length myMap
        \<and> map snd m = map (\<lambda>v. v + 1) (map snd myMap)
        \<and> m = [(1, 11), (2, 21), (3, 31)])
   \<and> map_iteration_main = Some ([''1: 11'', ''2: 21'', ''3: 31''], 0)"
  by (simp add: map_iteration_main_def myMap_entries incrementValue_def as_int_def INT_MIN_def
      INT_MAX_def to_string_def digit_char_def)

section \<open>The in-memory cache snippets\<close>

text \<open>A \<open>std::map<std::string, std::string>\<close> that is never iterated: a finite map from
  keys to values.\<close>

type_synonym cache = "string \<rightharpoonup> string"

text \<open>\<open>cache[key]\<close>: \<open>operator[]\<close> inserts an empty string under a key that is not there, and
  refers to the value under the key.\<close>

definition subscript :: "cache \<Rightarrow> string \<Rightarrow> cache" where
  "subscript c key = (case c key of None \<Rightarrow> c(key \<mapsto> []) | Some _ \<Rightarrow> c)"

text \<open>\<open>cache[key] = content\<close>\<close>

definition store :: "cache \<Rightarrow> string \<Rightarrow> string \<Rightarrow> cache" where
  "store c key content = (subscript c key)(key \<mapsto> content)"

text \<open>Reading \<open>cache[key]\<close>: the value and the map that \<open>operator[]\<close> leaves.\<close>

definition lookup :: "cache \<Rightarrow> string \<Rightarrow> string \<times> cache" where
  "lookup c key =
     (let c' = subscript c key in ((case c' key of None \<Rightarrow> [] | Some content \<Rightarrow> content), c'))"

text \<open>
  \<^verbatim>\<open>cache["http://example.com"] = "<html>hello</html>";
  std::string url = "http://example.com";
  std::cout << "Cache for " << url << cache[url] << std::endl;\<close>
\<close>

definition cache_main :: "string list \<times> int" where
  "cache_main =
     (let cache = store Map.empty ''http://example.com'' ''<html>hello</html>'';
          url = ''http://example.com''
      in ([''Cache for '' @ url @ fst (lookup cache url)], 0))"

text \<open>The tutorial's variant:
  \<^verbatim>\<open>cache["http://example.com"] = "<html>Example</html>";
  std::string url = "http://example.com";
  std::cout << "Cache for " << url << ": " << cache[url] << std::endl;\<close>
\<close>

definition caching_example_main :: "string list \<times> int" where
  "caching_example_main =
     (let cache = store Map.empty ''http://example.com'' ''<html>Example</html>'';
          url = ''http://example.com''
      in ([''Cache for '' @ url @ '': '' @ fst (lookup cache url)], 0))"

lemma store_upd: "store c key content = c(key \<mapsto> content)"
  by (auto simp: store_def subscript_def split: option.splits)

text \<open>
  Claim C7. Storing then looking up round-trips: after \<open>cache[url] = content\<close> the lookup
  \<open>cache[url]\<close> returns exactly \<open>content\<close>. The store changes the map at \<open>url\<close> only, the
  lookup leaves the stored map as it is, and both are functions of the map alone; the two
  programs print the stored page after the text \<open>Cache for\<close> and the address.
\<close>

theorem cache_store_lookup:
  "fst (lookup (store c url content) url) = content
   \<and> snd (lookup (store c url content) url) = store c url content
   \<and> store c url content = c(url \<mapsto> content)
   \<and> cache_main = ([''Cache for http://example.com<html>hello</html>''], 0)
   \<and> caching_example_main = ([''Cache for http://example.com: <html>Example</html>''], 0)"
  by (simp add: store_upd lookup_def subscript_def cache_main_def caching_example_main_def)

section \<open>The calculator\<close>

text \<open>
  The numbers of \<open>calculate\<close> are of any type with the four operations and a zero; the
  comparison \<open>num2 == 0\<close> is equality with that zero. The control flow, which is what
  decides whether the call throws, does not depend on the arithmetic.
\<close>

definition calculate ::
  "'a::{zero,plus,minus,times,divide} \<Rightarrow> 'a \<Rightarrow> string \<Rightarrow> exn + 'a" where
  "calculate num1 num2 op =
     (if op = ''+'' then Inr (num1 + num2)
      else if op = ''-'' then Inr (num1 - num2)
      else if op = ''*'' then Inr (num1 * num2)
      else if op = ''/'' then
        (if num2 = 0 then Inl (invalid_argument ''Error: Division by zero is not allowed.'')
         else Inr (num1 div num2))
      else Inl (invalid_argument ''Error: Invalid operator.Support are +, -, *, /''))"

text \<open>
  Claim C2. \<open>calculate(num1, num2, "/")\<close> with \<open>num2 == 0\<close> throws \<open>std::invalid_argument\<close>
  with the message \<open>Error: Division by zero is not allowed.\<close>, and with \<open>num2 != 0\<close> it
  returns \<open>num1 / num2\<close>; for \<open>+\<close>, \<open>-\<close> and \<open>*\<close> it returns the arithmetic result; for every
  other operator it throws \<open>std::invalid_argument\<close>. So the call throws exactly when the
  operator is \<open>/\<close> with a zero divisor or is none of the four, and it throws nothing else.
\<close>

theorem calculate_raises_iff:
  "calculate num1 num2 ''+'' = Inr (num1 + num2)
   \<and> calculate num1 num2 ''-'' = Inr (num1 - num2)
   \<and> calculate num1 num2 ''*'' = Inr (num1 * num2)
   \<and> calculate num1 num2 ''/'' =
       (if num2 = 0 then Inl (invalid_argument ''Error: Division by zero is not allowed.'')
        else Inr (num1 div num2))
   \<and> (if (op = ''/'' \<and> num2 = 0) \<or> op \<notin> {''+'', ''-'', ''*'', ''/''}
       then \<exists>m. calculate num1 num2 op = Inl (invalid_argument m)
       else \<exists>r. calculate num1 num2 op = Inr r)"
  by (simp add: calculate_def)

subsection \<open>The calculator's main\<close>

text \<open>
  \<open>argv\<close> is the list of the arguments, the program's name first, and \<open>argc\<close> is its
  length. A run of \<open>main\<close> is the list of what it does, in order: a line on \<open>std::cerr\<close>, the
  line \<open>Result:\<close> with the result on \<open>std::cout\<close>, or the read of \<open>argv[i]\<close>. It ends by
  returning, or in the use of an \<open>argv[i]\<close> with \<open>i >= argc\<close>. \<open>argv[argc]\<close> is inside the array:
  it is the null pointer that ends it. Reading it is defined; making a \<open>std::string\<close> from
  it, as \<open>std::stod(argv[i])\<close> and \<open>std::string op = argv[i]\<close> do, is undefined behaviour, and
  the model follows the run no further. Only with \<open>argc = 0\<close> is \<open>argv[1]\<close> behind the
  array.
\<close>

datatype 'a event = cerr string | cout_result 'a | argv_read nat

datatype outcome = returned int | undefined_argv nat

definition usage :: string where
  "usage = ''Usage: calculator <num1> <operator> <num2>''"

text \<open>\<^verbatim>\<open>catch (const std::exception &e) { std::cerr << e.what() << '\n'; }\<close> and then
  \<open>return 0\<close>.\<close>

definition catch :: "'a event list \<Rightarrow> exn \<Rightarrow> 'a event list \<times> outcome" where
  "catch evs e = (evs @ [cerr (what e)], returned 0)"

text \<open>
  \<^verbatim>\<open>double num1 = std::stod(argv[1]);
  std::string op = argv[2];
  double num2 = std::stod(argv[3]);
  double result = calculate(num1, num2, op);
  std::cout << "Result: " << result << "\n";\<close>
  \<open>std::stod\<close> is the standard library's; the model takes it as the parameter \<open>stod\<close>.
\<close>

definition try_block ::
  "(string \<Rightarrow> exn + 'a::{zero,plus,minus,times,divide}) \<Rightarrow> string list \<Rightarrow> 'a event list
     \<Rightarrow> 'a event list \<times> outcome" where
  "try_block stod argv evs =
     (if \<not> 1 < length argv then (evs @ [argv_read 1], undefined_argv 1)
      else case stod (argv ! 1) of
        Inl e \<Rightarrow> catch (evs @ [argv_read 1]) e
      | Inr num1 \<Rightarrow>
          if \<not> 2 < length argv then (evs @ [argv_read 1, argv_read 2], undefined_argv 2)
          else let op = argv ! 2 in
            if \<not> 3 < length argv
            then (evs @ [argv_read 1, argv_read 2, argv_read 3], undefined_argv 3)
            else case stod (argv ! 3) of
              Inl e \<Rightarrow> catch (evs @ [argv_read 1, argv_read 2, argv_read 3]) e
            | Inr num2 \<Rightarrow>
                (case calculate num1 num2 op of
                   Inl e \<Rightarrow> catch (evs @ [argv_read 1, argv_read 2, argv_read 3]) e
                 | Inr result \<Rightarrow>
                     (evs @ [argv_read 1, argv_read 2, argv_read 3, cout_result result],
                      returned 0)))"

text \<open>
  \<^verbatim>\<open>if (argc != 4) { std::cerr << "Usage: calculator <num1> <operator> <num2>\n"; }\<close>
  followed by the \<open>try\<close> block: the branch has no \<open>return\<close>.
\<close>

definition calculator_main ::
  "(string \<Rightarrow> exn + 'a::{zero,plus,minus,times,divide}) \<Rightarrow> string list
     \<Rightarrow> 'a event list \<times> outcome" where
  "calculator_main stod argv =
     (let evs = (if length argv \<noteq> 4 then [cerr usage] else [])
      in try_block stod argv evs)"

lemma try_block_first: "take (Suc (length evs)) (fst (try_block stod argv evs)) = evs @ [argv_read 1]"
  by (simp add: try_block_def catch_def Let_def split: sum.splits)

text \<open>
  Claim C3, as amended. With \<open>argc != 4\<close>, \<open>main\<close> prints the usage message and does not
  return or exit: it goes on exactly as the \<open>try\<close> block does, and \<open>argv[1]\<close> is read next,
  whatever \<open>argc\<close> is. \<open>argv[2]\<close> is read exactly when \<open>argc > 1\<close> and \<open>std::stod(argv[1])\<close>
  returns, and \<open>argv[3]\<close> exactly when \<open>argc > 2\<close> and \<open>std::stod(argv[1])\<close> returns. The check
  keeps no run from using an argument that was not supplied: with \<open>argc <= 1\<close> the run ends
  in the use of \<open>argv[1]\<close>, and with \<open>argc\<close> 2 or 3 it ends in the use of \<open>argv[argc]\<close> when
  \<open>std::stod(argv[1])\<close> returns; that use is of the null pointer that ends \<open>argv\<close> (with
  \<open>argc = 0\<close>, of \<open>argv[1]\<close> behind it), and is undefined behaviour. When \<open>argc > 1\<close> and
  \<open>std::stod(argv[1])\<close> throws, the exception is caught and \<open>main\<close> returns 0.
  The statement holds for every function in the place of \<open>std::stod\<close>.
\<close>

theorem calculator_main_falls_through:
  assumes "length argv \<noteq> 4"
  shows "take 2 (fst (calculator_main stod argv)) = [cerr usage, argv_read 1]
    \<and> calculator_main stod argv = try_block stod argv [cerr usage]
    \<and> (argv_read 2 \<in> set (fst (calculator_main stod argv)) \<longleftrightarrow> 1 < length argv \<and> \<not> isl (stod (argv ! 1)))
    \<and> (argv_read 3 \<in> set (fst (calculator_main stod argv)) \<longleftrightarrow> 2 < length argv \<and> \<not> isl (stod (argv ! 1)))
    \<and> (length argv \<le> 1 \<longrightarrow> snd (calculator_main stod argv) = undefined_argv 1)
    \<and> (1 < length argv \<and> length argv < 4 \<and> \<not> isl (stod (argv ! 1))
         \<longrightarrow> snd (calculator_main stod argv) = undefined_argv (length argv))
    \<and> (1 < length argv \<and> isl (stod (argv ! 1)) \<longrightarrow> snd (calculator_main stod argv) = returned 0)"
proof -
  have m: "calculator_main stod argv = try_block stod argv [cerr usage]"
    using assms by (simp add: calculator_main_def)
  have first: "take 2 (fst (calculator_main stod argv)) = [cerr usage, argv_read 1]"
    using try_block_first [of "[cerr usage]" stod argv] by (simp add: m numeral_2_eq_2)
  have second: "argv_read 2 \<in> set (fst (calculator_main stod argv)) \<longleftrightarrow> 1 < length argv \<and> \<not> isl (stod (argv ! 1))"
    unfolding m by (simp add: try_block_def catch_def Let_def split: sum.splits)
  have third: "argv_read 3 \<in> set (fst (calculator_main stod argv)) \<longleftrightarrow> 2 < length argv \<and> \<not> isl (stod (argv ! 1))"
    unfolding m by (simp add: try_block_def catch_def Let_def split: sum.splits)
  have none: "length argv \<le> 1 \<longrightarrow> snd (calculator_main stod argv) = undefined_argv 1"
    unfolding m by (simp add: try_block_def)
  have few: "1 < length argv \<and> length argv < 4 \<and> \<not> isl (stod (argv ! 1))
         \<longrightarrow> snd (calculator_main stod argv) = undefined_argv (length argv)"
    unfolding m by (auto simp: try_block_def catch_def Let_def split: sum.splits)
  have thrown: "1 < length argv \<and> isl (stod (argv ! 1)) \<longrightarrow> snd (calculator_main stod argv) = returned 0"
    unfolding m by (auto simp: try_block_def catch_def Let_def split: sum.splits)
  from first m second third none few thrown show ?thesis
    by (intro conjI)
qed

text \<open>
  The claim as stated, that \<open>argv[1]\<close>, \<open>argv[2]\<close> and \<open>argv[3]\<close> are all read when
  \<open>argc != 4\<close>, fails. For \<open>calculator foo\<close>, whenever \<open>std::stod("foo")\<close> throws
  \<open>std::invalid_argument\<close>, as the standard says it does, the exception is caught and \<open>main\<close>
  returns 0 with neither \<open>argv[2]\<close> nor \<open>argv[3]\<close> read. For \<open>calculator 6\<close>, whenever
  \<open>std::stod("6")\<close> returns, \<open>argv[2]\<close> is read and \<open>argv[3]\<close> is not. For \<open>calculator\<close> alone,
  neither is read, whatever \<open>std::stod\<close> does.
\<close>

theorem calculator_main_falls_through_counterexample:
  "\<forall>(stod :: string \<Rightarrow> exn + real) m x.
     length [''calculator'', ''foo''] \<noteq> 4
     \<and> calculator_main (stod(''foo'' := Inl (invalid_argument m))) [''calculator'', ''foo'']
         = ([cerr usage, argv_read 1, cerr m], returned 0)
     \<and> argv_read 2 \<notin> set (fst (calculator_main (stod(''foo'' := Inl (invalid_argument m))) [''calculator'', ''foo'']))
     \<and> argv_read 3 \<notin> set (fst (calculator_main (stod(''foo'' := Inl (invalid_argument m))) [''calculator'', ''foo'']))
     \<and> calculator_main (stod(''6'' := Inr x)) [''calculator'', ''6'']
         = ([cerr usage, argv_read 1, argv_read 2], undefined_argv 2)
     \<and> calculator_main stod [''calculator''] = ([cerr usage, argv_read 1], undefined_argv 1)"
  by (simp add: calculator_main_def try_block_def catch_def)

theorem calculator_main_falls_through_witness:
  "\<forall>(stod :: string \<Rightarrow> exn + real) x m.
     length [''calculator'', ''6'', ''/''] \<noteq> 4
     \<and> take 2 (fst (calculator_main (stod(''6'' := Inr x)) [''calculator'', ''6'', ''/''])) = [cerr usage, argv_read 1]
     \<and> argv_read 2 \<in> set (fst (calculator_main (stod(''6'' := Inr x)) [''calculator'', ''6'', ''/'']))
     \<and> argv_read 3 \<in> set (fst (calculator_main (stod(''6'' := Inr x)) [''calculator'', ''6'', ''/'']))
     \<and> snd (calculator_main (stod(''6'' := Inr x)) [''calculator'', ''6'', ''/'']) = undefined_argv 3
     \<and> argv_read 3 \<notin> set (fst (calculator_main (stod(''6'' := Inr x)) [''calculator'', ''6'']))
     \<and> snd (calculator_main (stod(''6'' := Inr x)) [''calculator'', ''6'']) = undefined_argv 2
     \<and> snd (calculator_main (stod(''foo'' := Inl (invalid_argument m))) [''calculator'', ''foo'']) = returned 0
     \<and> snd (calculator_main stod [''calculator'']) = undefined_argv 1
     \<and> snd (calculator_main stod []) = undefined_argv 1"
proof (intro allI)
  fix stod :: "string \<Rightarrow> exn + real" and x :: real and m :: string
  show "length [''calculator'', ''6'', ''/''] \<noteq> 4
     \<and> take 2 (fst (calculator_main (stod(''6'' := Inr x)) [''calculator'', ''6'', ''/''])) = [cerr usage, argv_read 1]
     \<and> argv_read 2 \<in> set (fst (calculator_main (stod(''6'' := Inr x)) [''calculator'', ''6'', ''/'']))
     \<and> argv_read 3 \<in> set (fst (calculator_main (stod(''6'' := Inr x)) [''calculator'', ''6'', ''/'']))
     \<and> snd (calculator_main (stod(''6'' := Inr x)) [''calculator'', ''6'', ''/'']) = undefined_argv 3
     \<and> argv_read 3 \<notin> set (fst (calculator_main (stod(''6'' := Inr x)) [''calculator'', ''6'']))
     \<and> snd (calculator_main (stod(''6'' := Inr x)) [''calculator'', ''6'']) = undefined_argv 2
     \<and> snd (calculator_main (stod(''foo'' := Inl (invalid_argument m))) [''calculator'', ''foo'']) = returned 0
     \<and> snd (calculator_main stod [''calculator'']) = undefined_argv 1
     \<and> snd (calculator_main stod []) = undefined_argv 1"
    using calculator_main_falls_through [of "[''calculator'', ''6'', ''/'']" "stod(''6'' := Inr x)"]
      calculator_main_falls_through [of "[''calculator'', ''6'']" "stod(''6'' := Inr x)"]
      calculator_main_falls_through [of "[''calculator'', ''foo'']" "stod(''foo'' := Inl (invalid_argument m))"]
      calculator_main_falls_through [of "[''calculator'']" stod]
      calculator_main_falls_through [of "[]" stod]
    by (simp add: calculator_main_def try_block_def catch_def)
qed

section \<open>The Flyweight factory\<close>

text \<open>
  A pointer is an address; address 0 is the null pointer. The \<open>ConcreteCharacter\<close> objects
  that the factory has allocated with \<open>new\<close> are kept in allocation order, the object at
  address \<open>p\<close> being \<open>objects ! (p - 1)\<close>, so that every allocation returns a fresh address.
  A \<open>ConcreteCharacter\<close> has the one field \<open>character\<close>, and is represented by it.
\<close>

type_synonym ptr = nat

definition nullptr :: ptr where
  "nullptr = 0"

record FlyweightFactory =
  characterPool :: "char \<rightharpoonup> ptr"
  objects :: "char list"

definition new_factory :: FlyweightFactory where
  "new_factory = \<lparr>characterPool = Map.empty, objects = []\<rparr>"

definition deref :: "FlyweightFactory \<Rightarrow> ptr \<Rightarrow> char option" where
  "deref f p = (if 0 < p \<and> p \<le> length (objects f) then Some (objects f ! (p - 1)) else None)"

text \<open>
  \<^verbatim>\<open>if (characterPool.find(c) == characterPool.end()) {
      characterPool[c] = new ConcreteCharacter(c);
  }
  return characterPool[c];\<close>
  The second \<open>operator[]\<close> would insert a null pointer under a key that is not there.
\<close>

definition getCharacter :: "FlyweightFactory \<Rightarrow> char \<Rightarrow> ptr \<times> FlyweightFactory" where
  "getCharacter f c =
     (let f1 = (if characterPool f c = None
                then f\<lparr>objects := objects f @ [c],
                       characterPool := (characterPool f)(c \<mapsto> Suc (length (objects f)))\<rparr>
                else f)
      in (case characterPool f1 c of
            Some p \<Rightarrow> (p, f1)
          | None \<Rightarrow> (nullptr, f1\<lparr>characterPool := (characterPool f1)(c \<mapsto> nullptr)\<rparr>)))"

text \<open>A sequence of requests, with the pointer each of them returns.\<close>

fun get_all :: "FlyweightFactory \<Rightarrow> char list \<Rightarrow> ptr list \<times> FlyweightFactory" where
  "get_all f [] = ([], f)"
| "get_all f (c # cs) =
     (let (p, f1) = getCharacter f c; (ps, f2) = get_all f1 cs in (p # ps, f2))"

text \<open>The pool invariant: every pointer in the pool is the address of an allocated object
  that stores the character it is keyed by.\<close>

definition pool_inv :: "FlyweightFactory \<Rightarrow> bool" where
  "pool_inv f = (\<forall>c p. characterPool f c = Some p \<longrightarrow> deref f p = Some c)"

text \<open>\<^verbatim>\<open>std::cout << "Character: " << character << " at position (" << x << ", " << y << ")\n";\<close>
  through a pointer; \<open>None\<close> when the pointer is not the address of an object.\<close>

definition display :: "FlyweightFactory \<Rightarrow> ptr \<Rightarrow> int \<Rightarrow> int \<Rightarrow> string option" where
  "display f p x y =
     (case deref f p of
        None \<Rightarrow> None
      | Some character \<Rightarrow>
          Some (''Character: '' @ [character] @ '' at position ('' @ to_string x @ '', ''
                @ to_string y @ '')''))"

fun client :: "FlyweightFactory \<Rightarrow> (char \<times> int \<times> int) list \<Rightarrow> string option list" where
  "client f [] = []"
| "client f ((c, x, y) # rest) =
     (let (p, f1) = getCharacter f c in display f1 p x y # client f1 rest)"

definition flyweight_main :: "string option list" where
  "flyweight_main =
     client new_factory
       [(CHR ''A'', 1, 1), (CHR ''B'', 2, 1), (CHR ''A'', 3, 1), (CHR ''C'', 1, 2), (CHR ''B'', 2, 2)]"

lemma new_factory_inv: "pool_inv new_factory"
  by (simp add: pool_inv_def new_factory_def)

lemma getCharacter_known:
  "characterPool f c = Some p \<Longrightarrow> getCharacter f c = (p, f)"
  by (simp add: getCharacter_def)

lemma getCharacter_fresh:
  "characterPool f c = None \<Longrightarrow>
     getCharacter f c =
       (Suc (length (objects f)),
        f\<lparr>objects := objects f @ [c],
          characterPool := (characterPool f)(c \<mapsto> Suc (length (objects f)))\<rparr>)"
  by (simp add: getCharacter_def)

lemma deref_append:
  "deref f p = Some c \<Longrightarrow> deref (f\<lparr>objects := objects f @ [c'], characterPool := m\<rparr>) p = Some c"
  by (auto simp: deref_def nth_append split: if_splits)

lemma deref_new:
  "deref (f\<lparr>objects := objects f @ [c], characterPool := m\<rparr>) (Suc (length (objects f))) = Some c"
  by (simp add: deref_def)

lemma getCharacter_inv: "pool_inv f \<Longrightarrow> pool_inv (snd (getCharacter f c))"
proof (cases "characterPool f c")
  case None
  assume inv: "pool_inv f"
  show ?thesis
    unfolding getCharacter_fresh [OF None] pool_inv_def
  proof (intro allI impI)
    fix c' p
    assume h: "characterPool (snd (Suc (length (objects f)),
        f\<lparr>objects := objects f @ [c],
          characterPool := (characterPool f)(c \<mapsto> Suc (length (objects f)))\<rparr>)) c' = Some p"
    show "deref (snd (Suc (length (objects f)),
        f\<lparr>objects := objects f @ [c],
          characterPool := (characterPool f)(c \<mapsto> Suc (length (objects f)))\<rparr>)) p = Some c'"
    proof (cases "c' = c")
      case True
      from h True have p: "p = Suc (length (objects f))" by simp
      show ?thesis unfolding p True snd_conv by (rule deref_new)
    next
      case False
      with h have "characterPool f c' = Some p" by simp
      with inv have "deref f p = Some c'" by (simp add: pool_inv_def)
      then show ?thesis by (simp add: deref_append)
    qed
  qed
next
  case (Some p)
  assume "pool_inv f"
  then show ?thesis
    by (simp add: getCharacter_known [OF Some])
qed

lemma getCharacter_pool: "characterPool (snd (getCharacter f c)) c = Some (fst (getCharacter f c))"
  by (cases "characterPool f c") (simp_all add: getCharacter_fresh getCharacter_known)

lemma getCharacter_keeps:
  "characterPool f c = Some p \<Longrightarrow> characterPool (snd (getCharacter f c')) c = Some p"
  by (cases "characterPool f c'") (auto simp: getCharacter_fresh getCharacter_known)

lemma get_all_keeps:
  "characterPool f c = Some p \<Longrightarrow> characterPool (snd (get_all f cs)) c = Some p"
proof (induction cs arbitrary: f)
  case Nil
  then show ?case by simp
next
  case (Cons c' cs)
  from Cons.prems have "characterPool (snd (getCharacter f c')) c = Some p"
    by (rule getCharacter_keeps)
  then have "characterPool (snd (get_all (snd (getCharacter f c')) cs)) c = Some p"
    by (rule Cons.IH)
  then show ?case
    by (simp add: split_beta)
qed

lemma get_all_inv: "pool_inv f \<Longrightarrow> pool_inv (snd (get_all f cs))"
  by (induction cs arbitrary: f) (auto simp: split_beta getCharacter_inv)

lemma pool_inv_inj:
  assumes "pool_inv f" and "characterPool f c1 = Some p" and "characterPool f c2 = Some p"
  shows "c1 = c2"
proof -
  from assms have "deref f p = Some c1" and "deref f p = Some c2"
    unfolding pool_inv_def by blast+
  then show "c1 = c2" by simp
qed

lemma flyweight_main_output:
  "flyweight_main =
     [Some ''Character: A at position (1, 1)'', Some ''Character: B at position (2, 1)'',
      Some ''Character: A at position (3, 1)'', Some ''Character: C at position (1, 2)'',
      Some ''Character: B at position (2, 2)'']"
  by (simp add: flyweight_main_def new_factory_def getCharacter_def display_def deref_def
      to_string_def digit_char_def)

text \<open>
  Claim C6. For every factory that satisfies the pool invariant, as a new factory does and
  as every factory reached by requests does, and every character \<open>c\<close>: a request for \<open>c\<close>
  keeps the invariant and returns the address of an object that stores \<open>c\<close>; it allocates
  an object only if \<open>c\<close> is not in the pool yet; every later request for \<open>c\<close>, whatever is
  requested in between, returns the same pointer and changes nothing; and no two
  characters of the pool share a flyweight.
\<close>

theorem getCharacter_shared:
  assumes "pool_inv f"
  shows "pool_inv (snd (get_all new_factory cs'))
    \<and> pool_inv (snd (getCharacter f c))
    \<and> deref (snd (getCharacter f c)) (fst (getCharacter f c)) = Some c
    \<and> objects (snd (getCharacter f c)) =
        (if characterPool f c = None then objects f @ [c] else objects f)
    \<and> getCharacter (snd (get_all (snd (getCharacter f c)) cs)) c =
        (fst (getCharacter f c), snd (get_all (snd (getCharacter f c)) cs))
    \<and> (\<forall>c1 c2 p. characterPool (snd (getCharacter f c)) c1 = Some p
          \<and> characterPool (snd (getCharacter f c)) c2 = Some p \<longrightarrow> c1 = c2)"
proof -
  let ?p = "fst (getCharacter f c)" and ?f1 = "snd (getCharacter f c)"
  have inv1: "pool_inv ?f1"
    using assms by (rule getCharacter_inv)
  have pool1: "characterPool ?f1 c = Some ?p"
    by (rule getCharacter_pool)
  have obj: "deref ?f1 ?p = Some c"
    using inv1 pool1 by (simp add: pool_inv_def)
  have alloc: "objects ?f1 = (if characterPool f c = None then objects f @ [c] else objects f)"
    by (cases "characterPool f c") (simp_all add: getCharacter_fresh getCharacter_known)
  have "characterPool (snd (get_all ?f1 cs)) c = Some ?p"
    using pool1 by (rule get_all_keeps)
  then have again: "getCharacter (snd (get_all ?f1 cs)) c = (?p, snd (get_all ?f1 cs))"
    by (rule getCharacter_known)
  have inj: "\<forall>c1 c2 p. characterPool ?f1 c1 = Some p \<and> characterPool ?f1 c2 = Some p \<longrightarrow> c1 = c2"
    using inv1 by (blast dest: pool_inv_inj)
  have reach: "pool_inv (snd (get_all new_factory cs'))"
    using new_factory_inv by (rule get_all_inv)
  from reach inv1 obj alloc again inj show ?thesis
    by blast
qed

theorem getCharacter_shared_witness:
  "pool_inv new_factory
   \<and> getCharacter new_factory (CHR ''A'') =
       (1, \<lparr>characterPool = [CHR ''A'' \<mapsto> 1], objects = ''A''\<rparr>)
   \<and> deref (snd (getCharacter new_factory (CHR ''A''))) 1 = Some (CHR ''A'')
   \<and> fst (getCharacter (snd (get_all (snd (getCharacter new_factory (CHR ''A''))) ''BCB'')) (CHR ''A'')) = 1
   \<and> objects (snd (getCharacter (snd (get_all (snd (getCharacter new_factory (CHR ''A''))) ''BCB'')) (CHR ''A''))) = ''ABC''"
  using getCharacter_shared [OF new_factory_inv, of "[]" "CHR ''A''" "''BCB''"] new_factory_inv
  by (simp add: new_factory_def getCharacter_def deref_def)

section \<open>The Observer pattern: the weather station\<close>

text \<open>
  An observer is known to the station by its address only. A call of \<open>update\<close> is recorded
  with the observer it is made on and the weather data it passes; the displays of the
  example print one line per call.
\<close>

type_synonym observer = nat

record WeatherStation =
  observers :: "observer list"
  weatherData :: string

datatype call = update observer string

definition new_station :: WeatherStation where
  "new_station = \<lparr>observers = [], weatherData = []\<rparr>"

definition attach :: "WeatherStation \<Rightarrow> observer \<Rightarrow> WeatherStation" where
  "attach ws ob = ws\<lparr>observers := observers ws @ [ob]\<rparr>"

text \<open>\<^verbatim>\<open>observers.erase(std::remove(observers.begin(), observers.end(), observer), observers.end());\<close>
  \<open>std::remove\<close> moves the elements that differ from the value to the front, in their
  order, and \<open>erase\<close> cuts the rest off.\<close>

fun remove_erase :: "observer list \<Rightarrow> observer \<Rightarrow> observer list" where
  "remove_erase [] v = []"
| "remove_erase (x # xs) v = (if x = v then remove_erase xs v else x # remove_erase xs v)"

definition detach :: "WeatherStation \<Rightarrow> observer \<Rightarrow> WeatherStation" where
  "detach ws ob = ws\<lparr>observers := remove_erase (observers ws) ob\<rparr>"

text \<open>\<^verbatim>\<open>for (Observer* observer : observers) { observer->update(weatherData); }\<close>\<close>

fun notify_loop :: "observer list \<Rightarrow> string \<Rightarrow> call list" where
  "notify_loop [] data = []"
| "notify_loop (ob # obs) data = update ob data # notify_loop obs data"

definition notify :: "WeatherStation \<Rightarrow> call list" where
  "notify ws = notify_loop (observers ws) (weatherData ws)"

definition setWeatherData :: "WeatherStation \<Rightarrow> string \<Rightarrow> call list \<times> WeatherStation" where
  "setWeatherData ws data = (let ws' = ws\<lparr>weatherData := data\<rparr> in (notify ws', ws'))"

text \<open>A history of calls on a station, and the \<open>update\<close> calls it makes, in order.\<close>

datatype op = Attach observer | Detach observer | Notify | SetWeatherData string

fun exec :: "WeatherStation \<Rightarrow> op \<Rightarrow> call list \<times> WeatherStation" where
  "exec ws (Attach ob) = ([], attach ws ob)"
| "exec ws (Detach ob) = ([], detach ws ob)"
| "exec ws Notify = (notify ws, ws)"
| "exec ws (SetWeatherData data) = setWeatherData ws data"

fun run :: "WeatherStation \<Rightarrow> op list \<Rightarrow> call list \<times> WeatherStation" where
  "run ws [] = ([], ws)"
| "run ws (x # xs) =
     (let (calls, ws1) = exec ws x; (calls', ws2) = run ws1 xs in (calls @ calls', ws2))"

fun callee :: "call \<Rightarrow> observer" where
  "callee (update ob data) = ob"

fun argument :: "call \<Rightarrow> string" where
  "argument (update ob data) = data"

definition WeatherDisplay_update :: "string \<Rightarrow> string \<Rightarrow> string" where
  "WeatherDisplay_update displayName data = displayName @ '' updated with weather data: '' @ data"

text \<open>The degree sign of the example's weather data, in UTF-8.\<close>

definition degree :: string where
  "degree = [CHR 0xC2, CHR 0xB0]"

definition observer_main :: "string list" where
  "observer_main =
     (let display = (\<lambda>ob. if ob = 1 then ''Display 1'' else ''Display 2'');
          ws = attach (attach new_station 1) 2;
          (calls1, ws) = setWeatherData ws (''Temperature: 22'' @ degree @ ''C, Humidity: 60%'');
          ws = detach ws 1;
          (calls2, ws) = setWeatherData ws (''Temperature: 24'' @ degree @ ''C, Humidity: 55%'')
      in map (\<lambda>c. WeatherDisplay_update (display (callee c)) (argument c)) (calls1 @ calls2))"

lemma remove_erase_filter: "remove_erase xs v = filter (\<lambda>x. x \<noteq> v) xs"
  by (induction xs) auto

lemma notify_loop_map: "notify_loop obs data = map (\<lambda>ob. update ob data) obs"
  by (induction obs) auto

lemma callee_notify: "map callee (notify ws) = observers ws"
  by (simp add: notify_def notify_loop_map comp_def)

lemma callee_exec:
  "set (map callee (fst (exec ws x))) \<subseteq> set (observers ws)"
  by (cases x) (auto simp: setWeatherData_def Let_def notify_def notify_loop_map)

lemma observers_exec:
  "x \<noteq> Attach ob \<Longrightarrow> ob \<notin> set (observers ws) \<Longrightarrow> ob \<notin> set (observers (snd (exec ws x)))"
  by (cases x) (auto simp: setWeatherData_def Let_def attach_def detach_def remove_erase_filter)

lemma run_not_attached:
  "Attach ob \<notin> set xs \<Longrightarrow> ob \<notin> set (observers ws) \<Longrightarrow> ob \<notin> callee ` set (fst (run ws xs))"
proof (induction xs arbitrary: ws)
  case Nil
  then show ?case by simp
next
  case (Cons x xs)
  from Cons.prems have x: "x \<noteq> Attach ob" and xs: "Attach ob \<notin> set xs"
    by auto
  from x Cons.prems(2) have "ob \<notin> set (observers (snd (exec ws x)))"
    by (rule observers_exec)
  with xs have later: "ob \<notin> callee ` set (fst (run (snd (exec ws x)) xs))"
    by (rule Cons.IH)
  from callee_exec [of ws x] Cons.prems(2) have now: "ob \<notin> callee ` set (fst (exec ws x))"
    by auto
  from now later show ?case
    by (auto simp: split_beta)
qed

lemma count_distinct: "distinct xs \<Longrightarrow> x \<in> set xs \<Longrightarrow> count_list xs x = 1"
  by (induction xs) auto

lemma observer_main_output:
  "observer_main =
     [''Display 1 updated with weather data: Temperature: 22'' @ degree @ ''C, Humidity: 60%'',
      ''Display 2 updated with weather data: Temperature: 22'' @ degree @ ''C, Humidity: 60%'',
      ''Display 2 updated with weather data: Temperature: 24'' @ degree @ ''C, Humidity: 55%'']"
  by (simp add: observer_main_def attach_def detach_def new_station_def setWeatherData_def
      notify_def WeatherDisplay_update_def)

text \<open>
  Claim C10, as amended. Every \<open>notify()\<close>, also the one \<open>setWeatherData\<close> makes, calls
  \<open>update\<close> once for each entry of \<open>observers\<close>, in the order of the entries, passing the
  current weather data. \<open>attach\<close> adds an entry at the end without looking for the
  observer, and \<open>detach\<close> removes every entry of the observer and keeps the order of the
  others. So an observer gets as many calls as it has entries: exactly one when no
  observer is attached twice. After \<open>detach(o)\<close>, no call of \<open>update\<close> is made on \<open>o\<close> for as
  long as \<open>o\<close> is not attached again.
\<close>

theorem notify_per_attachment:
  "notify ws = map (\<lambda>ob. update ob (weatherData ws)) (observers ws)
   \<and> observers (attach ws ob) = observers ws @ [ob]
   \<and> observers (detach ws ob) = filter (\<lambda>x. x \<noteq> ob) (observers ws)
   \<and> count_list (map callee (notify ws)) ob = count_list (observers ws) ob
   \<and> (distinct (observers ws) \<and> ob \<in> set (observers ws)
        \<longrightarrow> count_list (map callee (notify ws)) ob = 1)
   \<and> fst (setWeatherData ws data) = map (\<lambda>ob. update ob data) (observers ws)
   \<and> (Attach ob \<notin> set xs \<longrightarrow> ob \<notin> callee ` set (fst (run (detach ws ob) xs)))"
proof -
  have calls: "notify ws = map (\<lambda>ob. update ob (weatherData ws)) (observers ws)"
    by (simp add: notify_def notify_loop_map)
  have att: "observers (attach ws ob) = observers ws @ [ob]"
    by (simp add: attach_def)
  have det: "observers (detach ws ob) = filter (\<lambda>x. x \<noteq> ob) (observers ws)"
    by (simp add: detach_def remove_erase_filter)
  have cnt: "count_list (map callee (notify ws)) ob = count_list (observers ws) ob"
    by (simp only: callee_notify)
  have once: "distinct (observers ws) \<and> ob \<in> set (observers ws)
        \<longrightarrow> count_list (map callee (notify ws)) ob = 1"
    by (simp add: callee_notify count_distinct)
  have set_data: "fst (setWeatherData ws data) = map (\<lambda>ob. update ob data) (observers ws)"
    by (simp add: setWeatherData_def notify_def notify_loop_map)
  have "ob \<notin> set (observers (detach ws ob))"
    by (simp add: det)
  then have gone: "Attach ob \<notin> set xs \<longrightarrow> ob \<notin> callee ` set (fst (run (detach ws ob) xs))"
    by (blast dest: run_not_attached)
  from calls att det cnt once set_data gone show ?thesis
    by (intro conjI)
qed

text \<open>
  The claim as stated, that a \<open>notify()\<close> calls \<open>update\<close> exactly once on each attached
  observer, fails for an observer that was attached twice: it is called twice.
\<close>

theorem notify_twice_counterexample:
  "1 \<in> set (observers (attach (attach new_station 1) 1))
   \<and> notify (attach (attach new_station 1) 1) = [update 1 [], update 1 []]
   \<and> count_list (map callee (notify (attach (attach new_station 1) 1))) 1 = 2"
  by (simp add: attach_def new_station_def notify_def)

theorem notify_per_attachment_witness:
  "Attach 1 \<notin> set [Notify, Attach 2, SetWeatherData ''rain'']
   \<and> 1 \<notin> callee ` set (fst (run (detach (attach (attach new_station 1) 2) 1)
        [Notify, Attach 2, SetWeatherData ''rain'']))
   \<and> fst (run (detach (attach (attach new_station 1) 2) 1) [Notify, Attach 2, SetWeatherData ''rain''])
       = [update 2 [], update 2 ''rain'', update 2 ''rain'']
   \<and> distinct (observers (attach (attach new_station 1) 2))
   \<and> 2 \<in> set (observers (attach (attach new_station 1) 2))
   \<and> count_list (map callee (notify (attach (attach new_station 1) 2))) 2 = 1"
  using notify_per_attachment [of "attach (attach new_station 1) 2" 2 "[]" "[]"]
    notify_per_attachment [of "attach (attach new_station 1) 2" 1 "[]" "[Notify, Attach 2, SetWeatherData ''rain'']"]
  by (simp add: attach_def detach_def new_station_def notify_def setWeatherData_def)

section \<open>The thread pool\<close>

text \<open>
  What a worker thread does is a sequence of actions: a \<open>sleep_for\<close> of so many seconds, or
  a line written to \<open>std::cout\<close>. The body of \<open>ThreadPool::worker\<close>'s loop has two
  statements, and a worker is at one or the other.
\<close>

datatype action = sleep_for nat | cout string

datatype wpc = at_sleep | at_cout

text \<open>
  \<^verbatim>\<open>while (true) {
      std::this_thread::sleep_for(std::chrono::seconds(1));
      std::cout << "Worker thread is working!" << std::endl;
  }\<close>
  One statement of the loop: the action, and where the worker is afterwards.
\<close>

fun worker_step :: "wpc \<Rightarrow> action \<times> wpc" where
  "worker_step at_sleep = (sleep_for 1, at_cout)"
| "worker_step at_cout = (cout ''Worker thread is working!'', at_sleep)"

text \<open>The call of \<open>worker\<close> as a whole, with what it has done so far: it returns what the
  loop leaves, if the loop ends.\<close>

partial_function (option) worker :: "action list \<Rightarrow> action list option" where
  "worker out = worker (out @ [sleep_for 1, cout ''Worker thread is working!''])"

text \<open>The first \<open>k\<close> actions of a worker that is at \<open>pc\<close>.\<close>

fun actions_from :: "wpc \<Rightarrow> nat \<Rightarrow> action list" where
  "actions_from pc 0 = []"
| "actions_from pc (Suc k) = (let (a, pc') = worker_step pc in a # actions_from pc' k)"

text \<open>The class has the one data member \<open>workers\<close>; each thread in it runs \<open>worker\<close>, and
  is represented by where its worker is. The class has the constructor and \<open>worker\<close>, and
  no other member.\<close>

record ThreadPool =
  workers :: "wpc list"

text \<open>\<^verbatim>\<open>for (size_t i = 0; i < numThread; i++) { workers.emplace_back(&ThreadPool::worker, this); }\<close>\<close>

primrec emplace_workers :: "nat \<Rightarrow> wpc list \<Rightarrow> wpc list" where
  "emplace_workers 0 ws = ws"
| "emplace_workers (Suc n) ws = emplace_workers n (ws @ [at_sleep])"

definition new_ThreadPool :: "nat \<Rightarrow> ThreadPool" where
  "new_ThreadPool numThread = \<lparr>workers = emplace_workers numThread []\<rparr>"

text \<open>The threads run interleaved. A schedule names the thread that takes each step; a
  name that is no thread of the pool takes none. The run is the list of the actions taken,
  each with its thread.\<close>

fun pool_run :: "ThreadPool \<Rightarrow> nat list \<Rightarrow> (nat \<times> action) list" where
  "pool_run pool [] = []"
| "pool_run pool (i # sched) =
     (if i < length (workers pool)
      then (let (a, pc') = worker_step (workers pool ! i)
            in (i, a) # pool_run (pool\<lparr>workers := (workers pool)[i := pc']\<rparr>) sched)
      else pool_run pool sched)"

definition actions_of :: "nat \<Rightarrow> (nat \<times> action) list \<Rightarrow> action list" where
  "actions_of i evs = map snd (filter (\<lambda>e. fst e = i) evs)"

lemma worker_never_returns: "worker out = None"
proof (rule ccontr)
  assume "worker out \<noteq> None"
  then obtain r where r: "worker out = Some r"
    by auto
  have "\<And>f x y. (\<And>x y. f x = Some y \<Longrightarrow> False) \<Longrightarrow>
      f (x @ [sleep_for 1, cout ''Worker thread is working!'']) = Some y \<Longrightarrow> False"
    by blast
  then show False
    using r by (rule worker.raw_induct [where P = "\<lambda>_ _. False"])
qed

lemma emplace_workers_replicate: "emplace_workers n ws = ws @ replicate n at_sleep"
  by (induction n arbitrary: ws) (simp_all add: replicate_app_Cons_same)

lemma workers_new: "workers (new_ThreadPool n) = replicate n at_sleep"
  by (simp add: new_ThreadPool_def emplace_workers_replicate)

lemma actions_of_run:
  "i < length (workers pool) \<Longrightarrow>
     actions_of i (pool_run pool sched) = actions_from (workers pool ! i) (count_list sched i)"
proof (induction sched arbitrary: pool)
  case Nil
  then show ?case by (simp add: actions_of_def)
next
  case (Cons j sched)
  show ?case
  proof (cases "j < length (workers pool)")
    case False
    with Cons show ?thesis by (auto simp: actions_of_def)
  next
    case True
    obtain a pc' where st: "worker_step (workers pool ! j) = (a, pc')"
      by (cases "worker_step (workers pool ! j)")
    let ?pool = "pool\<lparr>workers := (workers pool)[j := pc']\<rparr>"
    have len: "i < length (workers ?pool)"
      using Cons.prems by simp
    have ih: "actions_of i (pool_run ?pool sched) = actions_from (workers ?pool ! i) (count_list sched i)"
      using len by (rule Cons.IH)
    show ?thesis
    proof (cases "j = i")
      case True
      with ih st Cons.prems show ?thesis
        by (simp add: actions_of_def)
    next
      case False
      with ih st True show ?thesis
        by (simp add: actions_of_def)
    qed
  qed
qed

lemma actions_from_set:
  "set (actions_from pc k) \<subseteq> {sleep_for 1, cout ''Worker thread is working!''}"
proof (induction k arbitrary: pc)
  case 0
  then show ?case by simp
next
  case (Suc k)
  from Suc [of at_sleep] Suc [of at_cout] show ?case
    by (cases pc) auto
qed

lemma actions_from_iterations:
  "actions_from at_sleep (2 * m) = concat (replicate m [sleep_for 1, cout ''Worker thread is working!''])"
  by (induction m) simp_all

lemma pool_run_set:
  "snd ` set (pool_run pool sched) \<subseteq> {sleep_for 1, cout ''Worker thread is working!''}"
proof (induction sched arbitrary: pool)
  case Nil
  then show ?case by simp
next
  case (Cons j sched)
  show ?case
  proof (cases "j < length (workers pool)")
    case False
    with Cons show ?thesis by simp
  next
    case True
    obtain a pc' where st: "worker_step (workers pool ! j) = (a, pc')"
      by (cases "worker_step (workers pool ! j)")
    then have "a \<in> {sleep_for 1, cout ''Worker thread is working!''}"
      by (cases "workers pool ! j") auto
    with Cons [of "pool\<lparr>workers := (workers pool)[j := pc']\<rparr>"] st True show ?thesis
      by simp
  qed
qed

lemma pool_run_threads: "fst ` set (pool_run pool sched) \<subseteq> {..<length (workers pool)}"
proof (induction sched arbitrary: pool)
  case Nil
  then show ?case by simp
next
  case (Cons j sched)
  show ?case
  proof (cases "j < length (workers pool)")
    case False
    with Cons show ?thesis by simp
  next
    case True
    obtain a pc' where st: "worker_step (workers pool ! j) = (a, pc')"
      by (cases "worker_step (workers pool ! j)")
    with Cons [of "pool\<lparr>workers := (workers pool)[j := pc']\<rparr>"] True show ?thesis
      by simp
  qed
qed

lemma actions_of_no_thread:
  assumes "\<not> i < length (workers pool)"
  shows "actions_of i (pool_run pool sched) = []"
proof -
  from assms pool_run_threads [of pool sched] have "\<forall>e \<in> set (pool_run pool sched). fst e \<noteq> i"
    by auto
  then show ?thesis
    by (simp add: actions_of_def filter_empty_conv)
qed

text \<open>
  Claim C1. For every \<open>ThreadPool(n)\<close>, which spawns \<open>n\<close> workers, and every interleaving of
  them: every action of the pool is the one-second sleep or the line
  \<open>Worker thread is working!\<close>; what a worker has done is a prefix of sleep, print, sleep,
  print and so on, as long as the number of steps it has taken; \<open>m\<close> iterations of the loop
  are \<open>m\<close> times the sleep and the print; and \<open>worker\<close> never returns. The pool has no task
  queue and nothing submits a task, so that no action dequeues or executes one.
\<close>

theorem ThreadPool_only_sleeps_and_prints:
  "length (workers (new_ThreadPool numThread)) = numThread
   \<and> snd ` set (pool_run (new_ThreadPool numThread) sched)
       \<subseteq> {sleep_for 1, cout ''Worker thread is working!''}
   \<and> actions_of i (pool_run (new_ThreadPool numThread) sched) =
       actions_from at_sleep (if i < numThread then count_list sched i else 0)
   \<and> actions_from at_sleep (2 * m) =
       concat (replicate m [sleep_for 1, cout ''Worker thread is working!''])
   \<and> worker out = None"
proof -
  have len: "length (workers (new_ThreadPool numThread)) = numThread"
    by (simp add: workers_new)
  have acts: "actions_of i (pool_run (new_ThreadPool numThread) sched) =
       actions_from at_sleep (if i < numThread then count_list sched i else 0)"
  proof (cases "i < numThread")
    case True
    then have "i < length (workers (new_ThreadPool numThread))"
      by (simp add: len)
    then have "actions_of i (pool_run (new_ThreadPool numThread) sched) =
        actions_from (workers (new_ThreadPool numThread) ! i) (count_list sched i)"
      by (rule actions_of_run)
    with True show ?thesis
      by (simp add: workers_new)
  next
    case False
    then have "\<not> i < length (workers (new_ThreadPool numThread))"
      by (simp add: len)
    then have "actions_of i (pool_run (new_ThreadPool numThread) sched) = []"
      by (rule actions_of_no_thread)
    with False show ?thesis
      by simp
  qed
  from len pool_run_set [of "new_ThreadPool numThread" sched] acts actions_from_iterations [of m]
    worker_never_returns [of out]
  show ?thesis
    by (intro conjI)
qed

section \<open>The odd and even number printer\<close>

text \<open>
  The program has the two threads \<open>t1\<close>, which runs \<open>printOddNumber\<close>, and \<open>t2\<close>, which runs
  \<open>printEvenNumbers\<close>. The two functions differ in the first value of \<open>i\<close> and in the name
  they print.
\<close>

datatype tid = T1 | T2

fun other :: "tid \<Rightarrow> tid" where
  "other T1 = T2"
| "other T2 = T1"

fun thread_name :: "tid \<Rightarrow> string" where
  "thread_name T1 = ''Thread 1: ''"
| "thread_name T2 = ''Thread 2: ''"

fun first_i :: "tid \<Rightarrow> int" where
  "first_i T1 = 1"
| "first_i T2 = 2"

text \<open>
  Where a thread is in
  \<^verbatim>\<open>for (int i = ...; i <= 20; i += 2) {
      std::unique_lock<std::mutex> lock(mtx);
      cv.wait(lock, [i] { return counter == i; });
      std::cout << "Thread ...: " << i << std::endl;
      counter++;
      cv.notify_one();
  }\<close>
  with \<open>cv.wait(lock, pred)\<close> read as \<open>while (!pred()) cv.wait(lock);\<close>: about to lock the
  mutex (\<open>i <= 20\<close> holds), about to test the predicate with the mutex held, blocked
  inside \<open>cv.wait(lock)\<close> with the mutex released, woken and about to lock the mutex again,
  about to print, to increment, to notify, about to leave the block (which unlocks the
  mutex, adds 2 to \<open>i\<close> and tests \<open>i <= 20\<close>), or returned.
\<close>

datatype pc = at_lock | at_wait | blocked | woken | at_print | at_inc | at_notify | at_unlock
  | finished

text \<open>The shared \<open>counter\<close>, the owner of \<open>mtx\<close>, each thread's place and its \<open>i\<close>, and the
  lines written to \<open>std::cout\<close>.\<close>

record state =
  counter :: int
  mtx :: "tid option"
  pcs :: "tid \<Rightarrow> pc"
  ivar :: "tid \<Rightarrow> int"
  cout_lines :: "string list"

definition start :: state where
  "start = \<lparr>counter = 1, mtx = None, pcs = (\<lambda>t. at_lock), ivar = first_i, cout_lines = []\<rparr>"

text \<open>\<open>cv.notify_one()\<close> by thread \<open>t\<close>: it unblocks a thread that is blocked in \<open>cv.wait\<close>,
  which can only be the other one.\<close>

definition notify_one :: "(tid \<Rightarrow> pc) \<Rightarrow> tid \<Rightarrow> (tid \<Rightarrow> pc)" where
  "notify_one ps t = (if ps (other t) = blocked then ps(other t := woken) else ps)"

text \<open>The next statement of thread \<open>t\<close>; \<open>None\<close> when the thread cannot move: it waits
  for the mutex, is blocked in \<open>cv.wait\<close>, or has returned.\<close>

definition step :: "tid \<Rightarrow> state \<Rightarrow> state option" where
  "step t s =
     (case pcs s t of
        at_lock \<Rightarrow>
          if mtx s = None then Some (s\<lparr>mtx := Some t, pcs := (pcs s)(t := at_wait)\<rparr>) else None
      | at_wait \<Rightarrow>
          if counter s = ivar s t then Some (s\<lparr>pcs := (pcs s)(t := at_print)\<rparr>)
          else Some (s\<lparr>mtx := None, pcs := (pcs s)(t := blocked)\<rparr>)
      | blocked \<Rightarrow> None
      | woken \<Rightarrow>
          if mtx s = None then Some (s\<lparr>mtx := Some t, pcs := (pcs s)(t := at_wait)\<rparr>) else None
      | at_print \<Rightarrow>
          Some (s\<lparr>cout_lines := cout_lines s @ [thread_name t @ to_string (ivar s t)],
                 pcs := (pcs s)(t := at_inc)\<rparr>)
      | at_inc \<Rightarrow> Some (s\<lparr>counter := counter s + 1, pcs := (pcs s)(t := at_notify)\<rparr>)
      | at_notify \<Rightarrow> Some (s\<lparr>pcs := (notify_one (pcs s) t)(t := at_unlock)\<rparr>)
      | at_unlock \<Rightarrow>
          Some (s\<lparr>mtx := None, ivar := (ivar s)(t := ivar s t + 2),
                 pcs := (pcs s)(t := if ivar s t + 2 \<le> 20 then at_lock else finished)\<rparr>)
      | finished \<Rightarrow> None)"

text \<open>A condition variable may also unblock a thread that nobody notified.\<close>

definition spurious :: "tid \<Rightarrow> state \<Rightarrow> state option" where
  "spurious t s = (if pcs s t = blocked then Some (s\<lparr>pcs := (pcs s)(t := woken)\<rparr>) else None)"

text \<open>An execution is an interleaving of the statements of the two threads and of
  spurious wake-ups: the schedule says who moves next, and a choice that cannot move is
  passed over.\<close>

datatype choice = Run tid | Spurious tid

fun fire :: "choice \<Rightarrow> state \<Rightarrow> state option" where
  "fire (Run t) s = step t s"
| "fire (Spurious t) s = spurious t s"

fun run_schedule :: "state \<Rightarrow> choice list \<Rightarrow> state" where
  "run_schedule s [] = s"
| "run_schedule s (c # cs) = run_schedule (case fire c s of None \<Rightarrow> s | Some s' \<Rightarrow> s') cs"

text \<open>The number of choices of a schedule that did move.\<close>

fun steps_taken :: "state \<Rightarrow> choice list \<Rightarrow> nat" where
  "steps_taken s [] = 0"
| "steps_taken s (c # cs) =
     (case fire c s of None \<Rightarrow> steps_taken s cs | Some s' \<Rightarrow> Suc (steps_taken s' cs))"

definition all_finished :: "state \<Rightarrow> bool" where
  "all_finished s = (pcs s T1 = finished \<and> pcs s T2 = finished)"

text \<open>The \<open>n\<close>-th line of the documented output, and the whole of it.\<close>

definition expected_line :: "int \<Rightarrow> string" where
  "expected_line n = thread_name (if odd n then T1 else T2) @ to_string n"

definition round_robin :: "nat \<Rightarrow> choice list" where
  "round_robin n = concat (replicate n [Run T1, Run T2])"

definition twenty_lines :: "string list" where
  "twenty_lines =
     [''Thread 1: 1'', ''Thread 2: 2'', ''Thread 1: 3'', ''Thread 2: 4'', ''Thread 1: 5'',
      ''Thread 2: 6'', ''Thread 1: 7'', ''Thread 2: 8'', ''Thread 1: 9'', ''Thread 2: 10'',
      ''Thread 1: 11'', ''Thread 2: 12'', ''Thread 1: 13'', ''Thread 2: 14'', ''Thread 1: 15'',
      ''Thread 2: 16'', ''Thread 1: 17'', ''Thread 2: 18'', ''Thread 1: 19'', ''Thread 2: 20'']"

text \<open>A schedule without spurious wake-ups consists of such choices.\<close>

fun is_run :: "choice \<Rightarrow> bool" where
  "is_run (Run t) = True"
| "is_run (Spurious t) = False"

subsection \<open>The invariant\<close>

text \<open>
  The mutex is owned by the thread that is between locking and unlocking; \<open>t1\<close>'s \<open>i\<close> is
  odd and \<open>t2\<close>'s is even; a thread that has not printed its \<open>i\<close> yet sees the counter at
  \<open>i\<close> or one below, and a thread blocked while the counter is at its \<open>i\<close> is about to be
  notified; the lines written are the first lines of the documented output, as many as
  the counter says.
\<close>

definition holding :: "pc \<Rightarrow> bool" where
  "holding p = (p = at_wait \<or> p = at_print \<or> p = at_inc \<or> p = at_notify \<or> p = at_unlock)"

definition printed :: "state \<Rightarrow> int" where
  "printed s = (if pcs s T1 = at_inc \<or> pcs s T2 = at_inc then counter s else counter s - 1)"

definition inv_mtx :: "state \<Rightarrow> bool" where
  "inv_mtx s = ((holding (pcs s T1) \<longleftrightarrow> mtx s = Some T1) \<and> (holding (pcs s T2) \<longleftrightarrow> mtx s = Some T2))"

definition inv_par :: "state \<Rightarrow> bool" where
  "inv_par s = (odd (ivar s T1) \<and> even (ivar s T2))"

definition inv_thr :: "state \<Rightarrow> tid \<Rightarrow> bool" where
  "inv_thr s t =
     (case pcs s t of
        at_lock \<Rightarrow> ivar s t \<le> 20 \<and> (counter s = ivar s t \<or> counter s = ivar s t - 1)
      | at_wait \<Rightarrow> ivar s t \<le> 20 \<and> (counter s = ivar s t \<or> counter s = ivar s t - 1)
      | woken \<Rightarrow> ivar s t \<le> 20 \<and> (counter s = ivar s t \<or> counter s = ivar s t - 1)
      | blocked \<Rightarrow> ivar s t \<le> 20 \<and>
          (counter s = ivar s t - 1 \<or> counter s = ivar s t \<and> pcs s (other t) = at_notify)
      | at_print \<Rightarrow> ivar s t \<le> 20 \<and> counter s = ivar s t
      | at_inc \<Rightarrow> ivar s t \<le> 20 \<and> counter s = ivar s t
      | at_notify \<Rightarrow> ivar s t \<le> 20 \<and> counter s = ivar s t + 1
      | at_unlock \<Rightarrow> ivar s t \<le> 20 \<and> counter s = ivar s t + 1
      | finished \<Rightarrow> 20 < ivar s t \<and> ivar s t \<le> 22 \<and> ivar s t - 1 \<le> counter s)"

definition inv_out :: "state \<Rightarrow> bool" where
  "inv_out s = (1 \<le> counter s \<and> counter s \<le> 21
     \<and> cout_lines s = map expected_line [1..printed s])"

definition invariant :: "state \<Rightarrow> bool" where
  "invariant s = (inv_mtx s \<and> inv_par s \<and> inv_thr s T1 \<and> inv_thr s T2 \<and> inv_out s)"

text \<open>
  For termination without spurious wake-ups: a woken thread then finds its predicate
  true, and every statement lowers the weight of the state.
\<close>

definition rank :: "state \<Rightarrow> tid \<Rightarrow> nat" where
  "rank s t =
     (case pcs s t of
        at_lock \<Rightarrow> 9
      | at_wait \<Rightarrow> if counter s = ivar s t then 5 else 8
      | blocked \<Rightarrow> 7
      | woken \<Rightarrow> 6
      | at_print \<Rightarrow> 4
      | at_inc \<Rightarrow> 3
      | at_notify \<Rightarrow> 2
      | at_unlock \<Rightarrow> 1
      | finished \<Rightarrow> 0)"

definition weight :: "state \<Rightarrow> nat" where
  "weight s = 5 * nat (22 - ivar s T1) + rank s T1 + 5 * nat (22 - ivar s T2) + rank s T2"

definition notified :: "state \<Rightarrow> bool" where
  "notified s = ((pcs s T1 = woken \<longrightarrow> counter s = ivar s T1)
               \<and> (pcs s T2 = woken \<longrightarrow> counter s = ivar s T2))"

lemma invariant_start: "invariant start"
  by (simp add: invariant_def inv_mtx_def inv_par_def inv_thr_def inv_out_def start_def holding_def
      printed_def)

lemma inv_thr_all: "invariant s \<Longrightarrow> inv_thr s t"
  by (cases t) (simp_all add: invariant_def)

lemma parity_owner: "inv_par s \<Longrightarrow> (if odd (ivar s t) then T1 else T2) = t"
  by (cases t) (simp_all add: inv_par_def)

lemma step_elim:
  assumes "step t s = Some s'"
  obtains
    (lock) "pcs s t = at_lock" "mtx s = None"
      "s' = s\<lparr>mtx := Some t, pcs := (pcs s)(t := at_wait)\<rparr>"
  | (pass) "pcs s t = at_wait" "counter s = ivar s t"
      "s' = s\<lparr>pcs := (pcs s)(t := at_print)\<rparr>"
  | (block) "pcs s t = at_wait" "counter s \<noteq> ivar s t"
      "s' = s\<lparr>mtx := None, pcs := (pcs s)(t := blocked)\<rparr>"
  | (relock) "pcs s t = woken" "mtx s = None"
      "s' = s\<lparr>mtx := Some t, pcs := (pcs s)(t := at_wait)\<rparr>"
  | (cout) "pcs s t = at_print"
      "s' = s\<lparr>cout_lines := cout_lines s @ [thread_name t @ to_string (ivar s t)],
                 pcs := (pcs s)(t := at_inc)\<rparr>"
  | (inc) "pcs s t = at_inc"
      "s' = s\<lparr>counter := counter s + 1, pcs := (pcs s)(t := at_notify)\<rparr>"
  | (notify) "pcs s t = at_notify"
      "s' = s\<lparr>pcs := (notify_one (pcs s) t)(t := at_unlock)\<rparr>"
  | (unlock) "pcs s t = at_unlock"
      "s' = s\<lparr>mtx := None, ivar := (ivar s)(t := ivar s t + 2),
                 pcs := (pcs s)(t := if ivar s t + 2 \<le> 20 then at_lock else finished)\<rparr>"
  using assms by (cases "pcs s t") (auto simp: step_def split: if_splits)

lemma step_mtx:
  assumes "inv_mtx s" and "step t s = Some s'"
  shows "inv_mtx s'"
  using assms(2)
proof (cases rule: step_elim)
  case lock
  with assms(1) show ?thesis
    by (cases t) (auto simp: inv_mtx_def holding_def)
next
  case pass
  with assms(1) show ?thesis
    by (cases t) (auto simp: inv_mtx_def holding_def)
next
  case block
  with assms(1) show ?thesis
    by (cases t) (auto simp: inv_mtx_def holding_def)
next
  case relock
  with assms(1) show ?thesis
    by (cases t) (auto simp: inv_mtx_def holding_def)
next
  case cout
  with assms(1) show ?thesis
    by (cases t) (auto simp: inv_mtx_def holding_def)
next
  case inc
  with assms(1) show ?thesis
    by (cases t) (auto simp: inv_mtx_def holding_def)
next
  case notify
  with assms(1) show ?thesis
    by (cases t) (auto simp: inv_mtx_def holding_def notify_one_def)
next
  case unlock
  with assms(1) show ?thesis
    by (cases t) (auto simp: inv_mtx_def holding_def)
qed

lemma step_par: "inv_par s \<Longrightarrow> step t s = Some s' \<Longrightarrow> inv_par s'"
  by (erule step_elim; cases t; simp add: inv_par_def)

lemma step_thr: "invariant s \<Longrightarrow> step t s = Some s' \<Longrightarrow> inv_thr s' u"
  by (erule step_elim; cases "pcs s (other t)"; cases t; cases u;
      auto simp: invariant_def inv_mtx_def inv_par_def inv_thr_def holding_def notify_one_def)

lemma step_out:
  assumes "invariant s" and "step t s = Some s'"
  shows "inv_out s'"
  using assms(2)
proof (cases rule: step_elim)
  case cout
  from assms(1) have thr: "inv_thr s t"
    by (rule inv_thr_all)
  with cout have c: "counter s = ivar s t" "ivar s t \<le> 20"
    by (simp_all add: inv_thr_def)
  from assms(1) have "inv_par s"
    by (simp add: invariant_def)
  then have owner: "(if odd (ivar s t) then T1 else T2) = t"
    by (rule parity_owner)
  from assms(1) cout have no_inc: "pcs s (other t) \<noteq> at_inc"
    by (cases t) (auto simp: invariant_def inv_mtx_def holding_def)
  from cout no_inc have p: "printed s = counter s - 1" "printed s' = counter s"
    by (cases t; simp add: printed_def)+
  from assms(1) have o: "1 \<le> counter s" "counter s \<le> 21"
    "cout_lines s = map expected_line [1..printed s]"
    by (simp_all add: invariant_def inv_out_def)
  have "[1..counter s] = [1..counter s - 1] @ [counter s]"
    using o(1) by (rule upto_rec2)
  with o p c owner cout show ?thesis
    by (simp add: inv_out_def expected_line_def)
next
  case inc
  from assms(1) have thr: "inv_thr s t"
    by (rule inv_thr_all)
  with inc have c: "counter s = ivar s t" "ivar s t \<le> 20"
    by (simp_all add: inv_thr_def)
  from assms(1) inc have no_inc: "pcs s (other t) \<noteq> at_inc"
    by (cases t) (auto simp: invariant_def inv_mtx_def holding_def)
  from inc no_inc have p: "printed s = counter s" "printed s' = counter s"
    by (cases t; simp add: printed_def)+
  from assms(1) have o: "1 \<le> counter s" "counter s \<le> 21"
    "cout_lines s = map expected_line [1..printed s]"
    by (simp_all add: invariant_def inv_out_def)
  with p c inc show ?thesis
    by (simp add: inv_out_def)
next
  case lock
  with assms(1) show ?thesis
    by (cases t) (auto simp: invariant_def inv_out_def printed_def)
next
  case pass
  with assms(1) show ?thesis
    by (cases t) (auto simp: invariant_def inv_out_def printed_def)
next
  case block
  with assms(1) show ?thesis
    by (cases t) (auto simp: invariant_def inv_out_def printed_def)
next
  case relock
  with assms(1) show ?thesis
    by (cases t) (auto simp: invariant_def inv_out_def printed_def)
next
  case notify
  with assms(1) show ?thesis
    by (cases t) (auto simp: invariant_def inv_out_def printed_def notify_one_def)
next
  case unlock
  with assms(1) show ?thesis
    by (cases t) (auto simp: invariant_def inv_out_def printed_def)
qed

lemma step_invariant:
  assumes "invariant s" and "step t s = Some s'"
  shows "invariant s'"
proof -
  from assms(1) have "inv_mtx s" and "inv_par s"
    by (simp_all add: invariant_def)
  with assms(2) have "inv_mtx s'" and "inv_par s'"
    by (blast intro: step_mtx step_par)+
  moreover from assms have "inv_thr s' T1" and "inv_thr s' T2"
    by (rule step_thr)+
  moreover from assms have "inv_out s'"
    by (rule step_out)
  ultimately show ?thesis
    by (simp add: invariant_def)
qed

lemma spurious_invariant:
  assumes "invariant s" and "spurious t s = Some s'"
  shows "invariant s'"
proof -
  from assms(2) have b: "pcs s t = blocked" and s': "s' = s\<lparr>pcs := (pcs s)(t := woken)\<rparr>"
    by (auto simp: spurious_def split: if_splits)
  from assms(1) b show ?thesis
    unfolding s'
    by (cases t; cases "pcs s (other t)")
      (auto simp: invariant_def inv_mtx_def inv_par_def inv_thr_def inv_out_def holding_def printed_def)
qed

lemma fire_invariant: "invariant s \<Longrightarrow> fire c s = Some s' \<Longrightarrow> invariant s'"
  by (cases c) (auto intro: step_invariant spurious_invariant)

lemma run_schedule_invariant: "invariant s \<Longrightarrow> invariant (run_schedule s cs)"
proof (induction cs arbitrary: s)
  case Nil
  then show ?case by simp
next
  case (Cons c cs)
  show ?case
  proof (cases "fire c s")
    case None
    with Cons show ?thesis by simp
  next
    case (Some s')
    with Cons.prems have "invariant s'"
      by (blast intro: fire_invariant)
    then have "invariant (run_schedule s' cs)"
      by (rule Cons.IH)
    with Some show ?thesis by simp
  qed
qed

lemma holder_enabled: "holding (pcs s t) \<Longrightarrow> step t s \<noteq> None"
  by (cases "pcs s t") (simp_all add: step_def holding_def)

lemma no_deadlock:
  assumes "invariant s" and "\<not> all_finished s"
  shows "step T1 s \<noteq> None \<or> step T2 s \<noteq> None"
proof (cases "mtx s")
  case (Some t)
  with assms(1) have "holding (pcs s t)"
    by (cases t) (simp_all add: invariant_def inv_mtx_def)
  then have "step t s \<noteq> None"
    by (rule holder_enabled)
  then show ?thesis
    by (cases t) simp_all
next
  case None
  from assms(1) have thr: "inv_thr s T1" "inv_thr s T2" and par: "inv_par s"
    by (simp_all add: invariant_def)
  from assms(1) None have free: "\<not> holding (pcs s T1)" "\<not> holding (pcs s T2)"
    by (simp_all add: invariant_def inv_mtx_def)
  show ?thesis
  proof (rule ccontr)
    assume "\<not> ?thesis"
    then have stuck: "step T1 s = None" "step T2 s = None"
      by simp_all
    with None free have p: "pcs s T1 = blocked \<or> pcs s T1 = finished"
      "pcs s T2 = blocked \<or> pcs s T2 = finished"
      by (cases "pcs s T1"; simp add: step_def holding_def; cases "pcs s T2";
          simp add: step_def holding_def)+
    from p show False
    proof (elim disjE)
      assume "pcs s T1 = blocked" and "pcs s T2 = blocked"
      with thr par show False
        by (simp add: inv_thr_def inv_par_def; presburger)
    next
      assume "pcs s T1 = blocked" and "pcs s T2 = finished"
      with thr par show False
        by (simp add: inv_thr_def inv_par_def; presburger)
    next
      assume "pcs s T1 = finished" and "pcs s T2 = blocked"
      with thr par show False
        by (simp add: inv_thr_def inv_par_def; presburger)
    next
      assume "pcs s T1 = finished" and "pcs s T2 = finished"
      with assms(2) show False
        by (simp add: all_finished_def)
    qed
  qed
qed

lemma step_notified: "invariant s \<Longrightarrow> notified s \<Longrightarrow> step t s = Some s' \<Longrightarrow> notified s'"
  by (erule step_elim; cases "pcs s (other t)"; cases t;
      auto simp: invariant_def inv_mtx_def inv_par_def inv_thr_def holding_def notify_one_def
        notified_def)

lemma step_weight: "invariant s \<Longrightarrow> notified s \<Longrightarrow> step t s = Some s' \<Longrightarrow> weight s' < weight s"
  by (erule step_elim; cases "pcs s (other t)"; cases t;
      auto simp: invariant_def inv_mtx_def inv_par_def inv_thr_def holding_def notify_one_def
        notified_def weight_def rank_def)

lemma steps_bounded:
  "invariant s \<Longrightarrow> notified s \<Longrightarrow> list_all is_run cs \<Longrightarrow> steps_taken s cs \<le> weight s"
proof (induction cs arbitrary: s)
  case Nil
  then show ?case by simp
next
  case (Cons c cs)
  from Cons.prems(3) obtain t where c: "c = Run t" and cs: "list_all is_run cs"
    by (cases c) simp_all
  show ?case
  proof (cases "step t s")
    case None
    with Cons.IH [OF Cons.prems(1,2) cs] c show ?thesis
      by simp
  next
    case (Some s')
    from Cons.prems(1,2) Some have "invariant s'" and "notified s'" and w: "weight s' < weight s"
      by (blast intro: step_invariant step_notified step_weight)+
    then have "steps_taken s' cs \<le> weight s'"
      using cs by (blast intro: Cons.IH)
    with w Some c show ?thesis
      by simp
  qed
qed

lemma weight_start: "weight start = 223"
  by (simp add: weight_def rank_def start_def)

lemma notified_start: "notified start"
  by (simp add: notified_def start_def)

lemma upto_20: "[1..20::int] = [1,2,3,4,5,6,7,8,9,10,11,12,13,14,15,16,17,18,19,20]"
  by (simp add: upto_rec1)

lemma twenty_lines_expected: "map expected_line [1..20] = twenty_lines"
  unfolding upto_20 by (simp add: expected_line_def twenty_lines_def to_string_def digit_char_def)

lemma printed_prefix:
  assumes "0 \<le> k" and "k \<le> 20"
  shows "\<exists>rest. twenty_lines = map expected_line [1..k] @ rest"
proof (cases "k = 0")
  case True
  then show ?thesis by simp
next
  case False
  with assms have "[1..20] = [1..k] @ [k + 1..20]"
    by (intro upto_split2) simp_all
  then have "map expected_line [1..20] = map expected_line [1..k] @ map expected_line [k + 1..20]"
    by simp
  then show ?thesis
    by (auto simp: twenty_lines_expected)
qed

lemma printed_range: "invariant s \<Longrightarrow> 0 \<le> printed s \<and> printed s \<le> 20"
  by (cases "pcs s T1"; cases "pcs s T2";
      simp add: invariant_def inv_out_def inv_thr_def printed_def)

lemma finished_counter:
  assumes "invariant s" and "all_finished s"
  shows "counter s = 21"
proof -
  from assms have "20 < ivar s T2" and "ivar s T2 - 1 \<le> counter s" and "even (ivar s T2)"
    and "counter s \<le> 21"
    by (simp_all add: invariant_def inv_out_def inv_thr_def inv_par_def all_finished_def)
  then show ?thesis
    by presburger
qed

lemma finished_printed: "invariant s \<Longrightarrow> all_finished s \<Longrightarrow> printed s = 20"
  by (simp add: finished_counter printed_def all_finished_def)

text \<open>
  Claim C5. In every execution of the program, that is for every schedule: the lines
  written are at any time the first lines of \<open>Thread 1: 1\<close>, \<open>Thread 2: 2\<close>, ...,
  \<open>Thread 2: 20\<close>, in this order, so that thread 1 prints the odd numbers and thread 2 the
  even ones; the counter is one more than the number of lines written, but for the moment
  between a line and the increment that follows it; when both threads have returned,
  exactly the twenty lines are written and the counter is 21; as long as a thread has
  not returned, one of the two threads can move, with no spurious wake-up needed; and
  without spurious wake-ups an execution has at most 223 steps, so that it cannot go on
  for ever.
\<close>

theorem number_sequence_alternates:
  "(\<exists>rest. twenty_lines = cout_lines (run_schedule start sched) @ rest)
   \<and> counter (run_schedule start sched) =
       (if pcs (run_schedule start sched) T1 = at_inc \<or> pcs (run_schedule start sched) T2 = at_inc
        then int (length (cout_lines (run_schedule start sched)))
        else int (length (cout_lines (run_schedule start sched))) + 1)
   \<and> (all_finished (run_schedule start sched) \<longrightarrow>
        cout_lines (run_schedule start sched) = twenty_lines \<and> counter (run_schedule start sched) = 21)
   \<and> (\<not> all_finished (run_schedule start sched) \<longrightarrow>
        step T1 (run_schedule start sched) \<noteq> None \<or> step T2 (run_schedule start sched) \<noteq> None)
   \<and> (list_all is_run sched \<longrightarrow> steps_taken start sched \<le> 223)"
proof -
  let ?s = "run_schedule start sched"
  have i: "invariant ?s"
    using invariant_start by (rule run_schedule_invariant)
  then have out: "cout_lines ?s = map expected_line [1..printed ?s]"
    by (simp add: invariant_def inv_out_def)
  from i have range: "0 \<le> printed ?s" "printed ?s \<le> 20"
    by (simp_all add: printed_range)
  then have prefix: "\<exists>rest. twenty_lines = cout_lines ?s @ rest"
    unfolding out by (rule printed_prefix)
  from range have "int (length (cout_lines ?s)) = printed ?s"
    unfolding out by simp
  then have count: "counter ?s =
       (if pcs ?s T1 = at_inc \<or> pcs ?s T2 = at_inc
        then int (length (cout_lines ?s)) else int (length (cout_lines ?s)) + 1)"
    by (simp add: printed_def)
  have fin: "all_finished ?s \<longrightarrow> cout_lines ?s = twenty_lines \<and> counter ?s = 21"
    using i out by (auto simp: finished_printed finished_counter twenty_lines_expected)
  have live: "\<not> all_finished ?s \<longrightarrow> step T1 ?s \<noteq> None \<or> step T2 ?s \<noteq> None"
    using i by (blast dest: no_deadlock)
  have "list_all is_run sched \<longrightarrow> steps_taken start sched \<le> weight start"
    using invariant_start notified_start by (blast intro: steps_bounded)
  then have bound: "list_all is_run sched \<longrightarrow> steps_taken start sched \<le> 223"
    by (simp add: weight_start)
  from prefix count fin live bound show ?thesis
    by (intro conjI)
qed

lemma round_robin_finishes:
  "all_finished (run_schedule start (round_robin 200))
   \<and> cout_lines (run_schedule start (round_robin 200)) = twenty_lines
   \<and> list_all is_run (round_robin 200)"
  by code_simp

lemma start_not_finished: "\<not> all_finished (run_schedule start []) \<and> step T1 (run_schedule start []) \<noteq> None"
  by (simp add: all_finished_def start_def step_def)

theorem number_sequence_alternates_witness:
  "all_finished (run_schedule start (round_robin 200))
   \<and> cout_lines (run_schedule start (round_robin 200)) = twenty_lines
   \<and> counter (run_schedule start (round_robin 200)) = 21
   \<and> list_all is_run (round_robin 200)
   \<and> steps_taken start (round_robin 200) \<le> 223
   \<and> \<not> all_finished (run_schedule start [])
   \<and> step T1 (run_schedule start []) \<noteq> None"
  using number_sequence_alternates [of "round_robin 200"] number_sequence_alternates [of "[]"]
    round_robin_finishes start_not_finished
  by blast

section \<open>The FTP client sketch\<close>

text \<open>
  \<open>std::string\<close> positions are \<open>size_t\<close> values, taken as 64 bits wide: \<open>npos\<close> is the
  largest one, and sums and differences wrap around.
\<close>

definition npos :: nat where
  "npos = 2 ^ 64 - 1"

text \<open>\<open>str.find(c)\<close>: the position of the first \<open>c\<close>, or \<open>npos\<close>.\<close>

definition find_char :: "string \<Rightarrow> char \<Rightarrow> nat" where
  "find_char str c = (if c \<in> set str then length (takeWhile (\<lambda>x. x \<noteq> c) str) else npos)"

text \<open>\<open>str.substr(pos, n)\<close>: at most \<open>n\<close> characters from \<open>pos\<close> on; it throws when \<open>pos\<close> is
  behind the end.\<close>

definition substr :: "string \<Rightarrow> nat \<Rightarrow> nat \<Rightarrow> exn + string" where
  "substr str pos n =
     (if length str < pos then Inl (out_of_range ''basic_string::substr'')
      else Inr (take n (drop pos str)))"

definition size_t_add :: "nat \<Rightarrow> nat \<Rightarrow> nat" where
  "size_t_add a b = (a + b) mod 2 ^ 64"

definition size_t_sub :: "nat \<Rightarrow> nat \<Rightarrow> nat" where
  "size_t_sub a b = (a + 2 ^ 64 - b mod 2 ^ 64) mod 2 ^ 64"

text \<open>
  Reading a decimal number as \<open>strtol\<close> does, which both the conversion \<open>%d\<close> of \<open>sscanf\<close>
  and \<open>std::stoi\<close> rest on: white space is skipped, a sign may come, and at least one digit
  must. The result is the number read and the rest of the string.
\<close>

definition is_digit :: "char \<Rightarrow> bool" where
  "is_digit c = (48 \<le> (of_char c :: nat) \<and> (of_char c :: nat) \<le> 57)"

definition is_space :: "char \<Rightarrow> bool" where
  "is_space c = (c = CHR '' '' \<or> (9 \<le> (of_char c :: nat) \<and> (of_char c :: nat) \<le> 13))"

definition digits_value :: "string \<Rightarrow> int" where
  "digits_value ds = foldl (\<lambda>n c. 10 * n + (int (of_char c) - 48)) 0 ds"

definition scan_int :: "string \<Rightarrow> (int \<times> string) option" where
  "scan_int str =
     (let s1 = dropWhile is_space str;
          negative = (case s1 of c # _ \<Rightarrow> c = CHR ''-'' | [] \<Rightarrow> False);
          s2 = (case s1 of c # cs \<Rightarrow> if c = CHR ''-'' \<or> c = CHR ''+'' then cs else s1 | [] \<Rightarrow> s1);
          ds = takeWhile is_digit s2
      in if ds = [] then None
         else Some ((if negative then - digits_value ds else digits_value ds),
                    dropWhile is_digit s2))"

text \<open>
  What \<open>%d\<close> stores into an \<open>int\<close>: \<open>long\<close> is 64 bits wide and \<open>int\<close> 32 bits; the number
  read is kept within the range of \<open>long\<close>, and its low 32 bits are stored.
\<close>

definition LONG_MIN :: int where
  "LONG_MIN = - 9223372036854775808"

definition LONG_MAX :: int where
  "LONG_MAX = 9223372036854775807"

definition store_int :: "int \<Rightarrow> 32 word" where
  "store_int v = word_of_int (max LONG_MIN (min LONG_MAX v))"

text \<open>\<open>sscanf(str, "%d,%d,...,%d", ...)\<close> with \<open>n\<close> conversions: the values stored, in
  order, until a conversion fails or a comma is missing. The variables of the
  conversions that did not happen are not assigned.\<close>

fun sscanf_ints :: "nat \<Rightarrow> string \<Rightarrow> 32 word list" where
  "sscanf_ints 0 str = []"
| "sscanf_ints (Suc n) str =
     (case scan_int str of
        None \<Rightarrow> []
      | Some (v, rest) \<Rightarrow>
          store_int v # (if n = 0 then []
               else (case rest of
                       c # rest' \<Rightarrow> if c = CHR '','' then sscanf_ints n rest' else []
                     | [] \<Rightarrow> [])))"

definition stoi :: "string \<Rightarrow> exn + int" where
  "stoi str =
     (case scan_int str of
        None \<Rightarrow> Inl (invalid_argument ''stoi'')
      | Some (v, rest) \<Rightarrow>
          if v < INT_MIN \<or> INT_MAX < v then Inl (out_of_range ''stoi'') else Inr v)"


text \<open>
  The network and the file system are the client's environment. For each socket
  descriptor, the world holds the results that the next calls of \<open>recv\<close> on it have:
  an error (the value -1), or the bytes that arrive, none when the peer has closed the
  connection, as it has when nothing is left. It also holds the results of the next
  calls of \<open>send\<close> and of the next attempts to open a socket and connect it, whether
  \<open>fopen\<close> succeeds, and the values that the uninitialised variables of
  \<open>enter_passive_mode\<close> hold. What the client does is recorded: the commands sent, the
  addresses it tried to connect to, the lines on \<open>std::cout\<close> and \<open>std::cerr\<close>, the bytes
  written to the file, the descriptors closed.
\<close>

datatype recv_result = recv_error | recv_bytes string

datatype connect_outcome = socket_failed | connect_failed int | connect_ok int

record world =
  inbox :: "int \<Rightarrow> recv_result list"
  send_results :: "bool list"
  connect_results :: "connect_outcome list"
  fopen_ok :: bool
  uninit :: "nat \<Rightarrow> 32 word"
  sent :: "(int \<times> string) list"
  connect_attempts :: "(string \<times> int) list"
  console_out :: "string list"
  console_err :: "string list"
  file_content :: "string option"
  closed_fds :: "int list"

definition print_out :: "world \<Rightarrow> string \<Rightarrow> world" where
  "print_out w line = w\<lparr>console_out := console_out w @ [line]\<rparr>"

definition print_err :: "world \<Rightarrow> string \<Rightarrow> world" where
  "print_err w line = w\<lparr>console_err := console_err w @ [line]\<rparr>"

text \<open>\<open>recv(sockfd, buffer, len, 0)\<close>: at most \<open>len\<close> of the bytes that arrive; the rest
  stays for the next call. A negative descriptor is no socket.\<close>

fun script_recv :: "recv_result list \<Rightarrow> nat \<Rightarrow> recv_result \<times> recv_result list" where
  "script_recv [] len = (recv_bytes [], [])"
| "script_recv (recv_error # rest) len = (recv_error, rest)"
| "script_recv (recv_bytes bs # rest) len =
     (if length bs \<le> len then (recv_bytes bs, rest)
      else (recv_bytes (take len bs), recv_bytes (drop len bs) # rest))"

definition recv :: "world \<Rightarrow> int \<Rightarrow> nat \<Rightarrow> recv_result \<times> world" where
  "recv w sockfd len =
     (if sockfd < 0 then (recv_error, w)
      else (let (r, rest) = script_recv (inbox w sockfd) len
            in (r, w\<lparr>inbox := (inbox w)(sockfd := rest)\<rparr>)))"

definition send :: "world \<Rightarrow> int \<Rightarrow> string \<Rightarrow> bool \<times> world" where
  "send w sockfd bytes =
     (if sockfd < 0 then (False, w)
      else (case send_results w of
              [] \<Rightarrow> (True, w\<lparr>sent := sent w @ [(sockfd, bytes)]\<rparr>)
            | ok # rest \<Rightarrow>
                (ok, w\<lparr>send_results := rest,
                       sent := (if ok then sent w @ [(sockfd, bytes)] else sent w)\<rparr>)))"

text \<open>
  \<^verbatim>\<open>int sockfd = socket(AF_INET, SOCK_STREAM, 0);
  if (sockfd == -1) { std::cerr << "Socket creation failed!" << std::endl; return -1; }
  ...
  server_addr.sin_port = htons(port);
  if (connect(...) < 0) { std::cerr << "Connection failed!" << std::endl; close(sockfd); return -1; }
  return sockfd;\<close>
\<close>

definition create_control_socket :: "world \<Rightarrow> string \<Rightarrow> int \<Rightarrow> int \<times> world" where
  "create_control_socket w server_ip port =
     (case connect_results w of
        [] \<Rightarrow> (- 1, print_err w ''Socket creation failed!'')
      | socket_failed # rest \<Rightarrow>
          (- 1, print_err (w\<lparr>connect_results := rest\<rparr>) ''Socket creation failed!'')
      | connect_failed sockfd # rest \<Rightarrow>
          (- 1, (print_err (w\<lparr>connect_results := rest,
                   connect_attempts := connect_attempts w @ [(server_ip, port mod 65536)]\<rparr>)
                 ''Connection failed!'')\<lparr>closed_fds := closed_fds w @ [sockfd]\<rparr>)
      | connect_ok sockfd # rest \<Rightarrow>
          (sockfd, w\<lparr>connect_results := rest,
                  connect_attempts := connect_attempts w @ [(server_ip, port mod 65536)]\<rparr>))"

text \<open>
  \<^verbatim>\<open>std::string cmd = command + "\r\n";
  if (send(sockfd, cmd.c_str(), cmd.length(), 0) < 0) { std::cerr << "Failed to send command!" << std::endl; }\<close>
\<close>

definition send_ftp_command :: "world \<Rightarrow> int \<Rightarrow> string \<Rightarrow> world" where
  "send_ftp_command w sockfd command =
     (let cmd = command @ [CHR 0x0D, CHR 0x0A];
          (ok, w') = send w sockfd cmd
      in if ok then w' else print_err w' ''Failed to send command!'')"

text \<open>
  \<^verbatim>\<open>char buffer[4096];
  int bytes_received = recv(sockfd, buffer, sizeof(buffer) - 1, 0);
  if (bytes_received < 0) { std::cerr << "Failed to receive response!" << std::endl; return ""; }
  buffer[bytes_received] = '\0';
  return std::string(buffer);\<close>
  The string made from the buffer ends at its first zero byte.
\<close>

definition receive_ftp_response :: "world \<Rightarrow> int \<Rightarrow> string \<times> world" where
  "receive_ftp_response w sockfd =
     (case recv w sockfd 4095 of
        (recv_error, w') \<Rightarrow> ([], print_err w' ''Failed to receive response!'')
      | (recv_bytes buffer, w') \<Rightarrow> (takeWhile (\<lambda>c. c \<noteq> CHR 0x00) buffer, w'))"

text \<open>The six variables \<open>ip1\<close>, ..., \<open>port2\<close> after \<open>sscanf\<close>: the converted value, or what
  the variable held before.\<close>

definition assigned :: "32 word list \<Rightarrow> (nat \<Rightarrow> 32 word) \<Rightarrow> nat \<Rightarrow> 32 word" where
  "assigned vals before k = (if k < length vals then vals ! k else before k)"

text \<open>\<open>std::to_string(ip1) + "." + std::to_string(ip2) + "." + std::to_string(ip3) + "." +
  std::to_string(ip4)\<close>, the variables being \<open>int\<close>s.\<close>

definition dotted :: "(nat \<Rightarrow> 32 word) \<Rightarrow> string" where
  "dotted v = to_string (sint (v 0)) @ ''.'' @ to_string (sint (v 1)) @ ''.''
              @ to_string (sint (v 2)) @ ''.'' @ to_string (sint (v 3))"

text \<open>
  \<^verbatim>\<open>send_ftp_command(sockfd, "PASV");
  std::string response = receive_ftp_response(sockfd);
  std::cout << "Response: " << response << std::endl;
  size_t start_pos = response.find('(') + 1;
  size_t end_pos = response.find(')');
  std::string passive_info = response.substr(start_pos, end_pos - start_pos);
  int ip1, ip2, ip3, ip4, port1, port2;
  sscanf(passive_info.c_str(), "%d,%d,%d,%d,%d,%d", &ip1, &ip2, &ip3, &ip4, &port1, &port2);
  std::string data_ip = std::to_string(ip1) + "." + ... + std::to_string(ip4);
  int data_port = port1 * 256 + port2;
  std::cout << "Data Connection IP: " << data_ip << ", Port: " << data_port << std::endl;
  return data_ip + ":" + std::to_string(data_port);\<close>
  The variables are 32-bit \<open>int\<close>s. Where \<open>port1 * 256 + port2\<close> leaves the range of \<open>int\<close>, which
  C++ leaves undefined, the model wraps around, as the machine arithmetic does.
\<close>

definition enter_passive_mode :: "world \<Rightarrow> int \<Rightarrow> (exn + string) \<times> world" where
  "enter_passive_mode w sockfd =
     (let w1 = send_ftp_command w sockfd ''PASV'';
          (response, w2) = receive_ftp_response w1 sockfd;
          w3 = print_out w2 (''Response: '' @ response);
          start_pos = size_t_add (find_char response (CHR ''('')) 1;
          end_pos = find_char response (CHR '')'')
      in case substr response start_pos (size_t_sub end_pos start_pos) of
           Inl e \<Rightarrow> (Inl e, w3)
         | Inr passive_info \<Rightarrow>
             (let v = assigned (sscanf_ints 6 passive_info) (uninit w3);
                  data_ip = dotted v;
                  data_port = v 4 * 256 + v 5;
                  w4 = print_out w3 (''Data Connection IP: '' @ data_ip @ '', Port: ''
                                     @ to_string (sint data_port))
              in (Inr (data_ip @ '':'' @ to_string (sint data_port)), w4)))"

text \<open>\<open>fwrite(buffer, sizeof(char), bytes_received, file)\<close>\<close>

definition fwrite :: "world \<Rightarrow> string \<Rightarrow> world" where
  "fwrite w bytes = w\<lparr>file_content := (case file_content w of None \<Rightarrow> None | Some f \<Rightarrow> Some (f @ bytes))\<rparr>"

text \<open>What is left to receive on a socket, as a number: it gets smaller with every
  \<open>recv\<close> that returns bytes.\<close>

definition script_size :: "recv_result list \<Rightarrow> nat" where
  "script_size script =
     sum_list (map (\<lambda>r. case r of recv_error \<Rightarrow> 1 | recv_bytes bs \<Rightarrow> Suc (length bs)) script)"

lemma script_recv_smaller:
  "script_recv script len = (recv_bytes bs, rest) \<Longrightarrow> 0 < length bs \<Longrightarrow>
     script_size rest < script_size script"
  by (cases "(script, len)" rule: script_recv.cases)
    (auto simp: script_size_def split: if_splits)

lemma recv_smaller:
  "(recv_bytes bs, w') = recv w sockfd len \<Longrightarrow> bs \<noteq> [] \<Longrightarrow>
     script_size (inbox w' sockfd) < script_size (inbox w sockfd)"
  by (auto simp: recv_def split: if_splits prod.splits dest: script_recv_smaller)

text \<open>
  \<^verbatim>\<open>while ((bytes_received = recv(data_sockfd, buffer, sizeof(buffer), 0)) > 0) {
      fwrite(buffer, sizeof(char), bytes_received, file);
  }\<close>
\<close>

function receive_file :: "world \<Rightarrow> int \<Rightarrow> world" where
  "receive_file w data_sockfd =
     (case recv w data_sockfd 1024 of
        (recv_error, w') \<Rightarrow> w'
      | (recv_bytes buffer, w') \<Rightarrow>
          if 0 < length buffer then receive_file (fwrite w' buffer) data_sockfd else w')"
  by pat_completeness auto
termination
  by (relation "measure (\<lambda>(w, sockfd). script_size (inbox w sockfd))")
    (auto simp: fwrite_def intro: recv_smaller)

declare receive_file.simps [simp del]

text \<open>
  The body of \<open>ftp_download_file\<close> from the \<open>RETR\<close> command on:
  \<^verbatim>\<open>send_ftp_command(sockfd, "RETR " + remote_file);
  std::string response = receive_ftp_response(sockfd);
  std::cout << "Response: " << response << std::endl;
  FILE *file = fopen(local_file.c_str(), "wb");
  if (!file) { std::cerr << "Failed to open file!" << std::endl; return; }
  char buffer[1024]; int bytes_received;
  while (...) { ... }
  fclose(file);
  close(data_sockfd);
  std::cout << "File downloaded successfully." << std::endl;\<close>
\<close>

definition download_body :: "world \<Rightarrow> int \<Rightarrow> int \<Rightarrow> string \<Rightarrow> string \<Rightarrow> world" where
  "download_body w sockfd data_sockfd remote_file local_file =
     (let w1 = send_ftp_command w sockfd (''RETR '' @ remote_file);
          (response, w2) = receive_ftp_response w1 sockfd;
          w3 = print_out w2 (''Response: '' @ response)
      in if \<not> fopen_ok w3 then print_err w3 ''Failed to open file!''
         else (let w4 = w3\<lparr>file_content := Some []\<rparr>;
                   w5 = receive_file w4 data_sockfd;
                   w6 = w5\<lparr>closed_fds := closed_fds w5 @ [data_sockfd]\<rparr>
               in print_out w6 ''File downloaded successfully.''))"

text \<open>
  \<^verbatim>\<open>std::string data_address = enter_passive_mode(sockfd);
  std::string data_ip = data_address.substr(0, data_address.find(':'));
  int data_port = std::stoi(data_address.substr(data_address.find(':') + 1));
  int data_sockfd = create_control_socket(data_ip, data_port);\<close>
  and then the body above. The result says which exception left the function, if one did.
\<close>

definition ftp_download_file :: "world \<Rightarrow> int \<Rightarrow> string \<Rightarrow> string \<Rightarrow> exn option \<times> world" where
  "ftp_download_file w sockfd remote_file local_file =
     (case enter_passive_mode w sockfd of
        (Inl e, w1) \<Rightarrow> (Some e, w1)
      | (Inr data_address, w1) \<Rightarrow>
          (case substr data_address 0 (find_char data_address (CHR '':'')) of
             Inl e \<Rightarrow> (Some e, w1)
           | Inr data_ip \<Rightarrow>
               (case substr data_address (size_t_add (find_char data_address (CHR '':'')) 1) npos of
                  Inl e \<Rightarrow> (Some e, w1)
                | Inr port_text \<Rightarrow>
                    (case stoi port_text of
                       Inl e \<Rightarrow> (Some e, w1)
                     | Inr data_port \<Rightarrow>
                         (let (data_sockfd, w2) = create_control_socket w1 data_ip data_port
                          in (None, download_body w2 sockfd data_sockfd remote_file local_file))))))"

text \<open>
  Two worlds to run the client in. In the first, the server answers \<open>PASV\<close> and \<open>RETR\<close>, the
  data connection is made, and the data arrive in two pieces, then fail, then go on. In
  the second, the server answers \<open>PASV\<close> with an error reply, and every uninitialised
  variable holds 7.
\<close>

definition ftp_world0 :: world where
  "ftp_world0 = \<lparr>inbox = (\<lambda>fd. []), send_results = [], connect_results = [], fopen_ok = True,
     uninit = (\<lambda>k. 0), sent = [], connect_attempts = [], console_out = [], console_err = [],
     file_content = None, closed_fds = []\<rparr>"

definition ftp_demo :: world where
  "ftp_demo = ftp_world0\<lparr>inbox := (\<lambda>fd. [])
       (3 := [recv_bytes ''227 Entering Passive Mode (192,168,1,1,19,200)'',
              recv_bytes ''150 Opening''],
        4 := [recv_bytes ''hello '', recv_bytes ''wor'', recv_error, recv_bytes ''ld'']),
     connect_results := [connect_ok 4]\<rparr>"

definition ftp_malformed :: world where
  "ftp_malformed = ftp_world0\<lparr>inbox := (\<lambda>fd. [])(3 := [recv_bytes ''500 Syntax error'']),
     connect_results := [connect_ok 4], uninit := (\<lambda>k. 7)\<rparr>"

text \<open>What a download takes from a data connection: the bytes of the results of \<open>recv\<close>
  before the first one that is an error or empty; and what it leaves unread behind
  that one.\<close>

fun is_data :: "recv_result \<Rightarrow> bool" where
  "is_data recv_error = False"
| "is_data (recv_bytes bs) = (bs \<noteq> [])"

fun bytes_of :: "recv_result \<Rightarrow> string" where
  "bytes_of recv_error = []"
| "bytes_of (recv_bytes bs) = bs"

definition received :: "recv_result list \<Rightarrow> string" where
  "received script = concat (map bytes_of (takeWhile is_data script))"

definition unread :: "recv_result list \<Rightarrow> recv_result list" where
  "unread script = drop 1 (dropWhile is_data script)"

declare digits.simps [simp del]

lemma digit_char_code: "(of_char (digit_char d) :: nat) = 48 + d mod 10"
proof -
  have "d mod 10 = 0 \<or> d mod 10 = 1 \<or> d mod 10 = 2 \<or> d mod 10 = 3 \<or> d mod 10 = 4
      \<or> d mod 10 = 5 \<or> d mod 10 = 6 \<or> d mod 10 = 7 \<or> d mod 10 = 8 \<or> d mod 10 = 9"
    by presburger
  then show ?thesis
    by (elim disjE) (simp_all add: digit_char_def)
qed

lemma is_digit_digit_char: "is_digit (digit_char d)"
  by (simp add: is_digit_def digit_char_code)

lemma digits_value_snoc:
  "digits_value (ds @ [c]) = 10 * digits_value ds + (int (of_char c) - 48)"
  by (simp add: digits_value_def)

lemma digits_value_digit_char: "digits_value [digit_char d] = int (d mod 10)"
  by (simp add: digits_value_def digit_char_code)

lemma digits_props:
  "digits n \<noteq> [] \<and> (\<forall>c \<in> set (digits n). is_digit c) \<and> digits_value (digits n) = int n
   \<and> length (digits n) \<le> Suc n"
proof (induction n rule: digits.induct)
  case (1 n)
  show ?case
  proof (cases "n < 10")
    case True
    then have "digits n = [digit_char n]"
      by (subst digits.simps) simp
    with True show ?thesis
      by (simp add: is_digit_digit_char digits_value_digit_char)
  next
    case False
    with 1 have ih: "digits (n div 10) \<noteq> []" "\<forall>c \<in> set (digits (n div 10)). is_digit c"
      "digits_value (digits (n div 10)) = int (n div 10)"
      "length (digits (n div 10)) \<le> Suc (n div 10)"
      by simp_all
    have unfold: "digits n = digits (n div 10) @ [digit_char (n mod 10)]"
      using False by (subst digits.simps) simp
    have "digits_value (digits n) = 10 * int (n div 10) + int (n mod 10)"
      unfolding unfold digits_value_snoc ih(3) by (simp add: digit_char_code)
    moreover have "10 * int (n div 10) + int (n mod 10) = int (10 * (n div 10) + n mod 10)"
      by (simp only: of_nat_add of_nat_mult of_nat_numeral)
    ultimately have v: "digits_value (digits n) = int n"
      by simp
    have "length (digits n) = Suc (length (digits (n div 10)))"
      unfolding unfold by simp
    with ih(4) False have l: "length (digits n) \<le> Suc n"
      by simp
    from ih(2) have d: "\<forall>c \<in> set (digits n). is_digit c"
      unfolding unfold by (simp add: is_digit_digit_char)
    have "digits n \<noteq> []"
      unfolding unfold by simp
    with v l d show ?thesis
      by blast
  qed
qed

lemma digit_not_space: "is_digit c \<Longrightarrow> \<not> is_space c"
  by (auto simp: is_digit_def is_space_def)

lemma digit_not_sign: "is_digit c \<Longrightarrow> c \<noteq> CHR ''-'' \<and> c \<noteq> CHR ''+'' \<and> c \<noteq> CHR '':''"
  by (auto simp: is_digit_def)

lemma scan_int_all_digits:
  assumes "ds \<noteq> []" and "\<forall>x \<in> set ds. is_digit x"
  shows "scan_int ds = Some (digits_value ds, [])"
proof -
  from assms(1) obtain c cs where ds: "ds = c # cs"
    by (cases ds) auto
  with assms(2) have c: "is_digit c" and cs: "\<forall>x \<in> set cs. is_digit x"
    by simp_all
  from c have c': "\<not> is_space c" "c \<noteq> CHR ''-''" "c \<noteq> CHR ''+''"
    by (simp_all add: digit_not_space digit_not_sign)
  from cs have t: "takeWhile is_digit cs = cs" "dropWhile is_digit cs = []"
    by simp_all
  show ?thesis
    by (simp add: scan_int_def ds c c' t)
qed

lemma scan_int_minus_digits:
  assumes "ds \<noteq> []" and "\<forall>x \<in> set ds. is_digit x"
  shows "scan_int (CHR ''-'' # ds) = Some (- digits_value ds, [])"
proof -
  from assms have t: "takeWhile is_digit ds = ds" "dropWhile is_digit ds = []"
    by simp_all
  show ?thesis
    by (simp add: scan_int_def is_space_def t assms(1))
qed

lemma scan_int_to_string: "scan_int (to_string i) = Some (i, [])"
proof (cases "i < 0")
  case True
  with scan_int_minus_digits [of "digits (nat (- i))"] digits_props [of "nat (- i)"]
  show ?thesis
    by (simp add: to_string_def)
next
  case False
  with scan_int_all_digits [of "digits (nat i)"] digits_props [of "nat i"]
  show ?thesis
    by (simp add: to_string_def)
qed

lemma stoi_to_string: "INT_MIN \<le> i \<Longrightarrow> i \<le> INT_MAX \<Longrightarrow> stoi (to_string i) = Inr i"
  by (simp add: stoi_def scan_int_to_string)

lemma sint_int_range: "INT_MIN \<le> sint (x :: 32 word) \<and> sint x \<le> INT_MAX"
  using sint_ge [of x] sint_lt [of x] by (simp add: INT_MIN_def INT_MAX_def)

lemma stoi_port: "stoi (to_string (sint (x :: 32 word))) = Inr (sint x)"
  using sint_int_range [of x] by (simp add: stoi_to_string)

lemma to_string_chars: "c \<in> set (to_string i) \<Longrightarrow> c = CHR ''-'' \<or> is_digit c"
  using digits_props [of "nat i"] digits_props [of "nat (- i)"]
  by (auto simp: to_string_def split: if_splits)

lemma to_string_no_colon: "CHR '':'' \<notin> set (to_string i)"
  using to_string_chars [of "CHR '':''" i] by (auto simp: is_digit_def)

lemma to_string_length: "length (to_string i) \<le> nat \<bar>i\<bar> + 2"
  using digits_props [of "nat i"] digits_props [of "nat (- i)"]
  by (auto simp: to_string_def)

lemma to_string_int_length: "length (to_string (sint (x :: 32 word))) \<le> 2147483650"
proof -
  from sint_ge [of x] sint_lt [of x] have "nat \<bar>sint x\<bar> \<le> 2147483648"
    by simp
  with to_string_length [of "sint x"] show ?thesis
    by simp
qed

lemma dotted_no_colon: "CHR '':'' \<notin> set (dotted v)"
  by (simp add: dotted_def to_string_no_colon)

lemma dotted_length: "length (dotted v) \<le> 8589934603"
  using to_string_int_length [of "v 0"] to_string_int_length [of "v 1"]
    to_string_int_length [of "v 2"] to_string_int_length [of "v 3"]
  by (simp add: dotted_def)

lemma find_char_colon:
  assumes "CHR '':'' \<notin> set xs"
  shows "find_char (xs @ CHR '':'' # ys) (CHR '':'') = length xs"
proof -
  from assms have "takeWhile (\<lambda>x. x \<noteq> CHR '':'') (xs @ CHR '':'' # ys) = xs"
    by (induction xs) auto
  then show ?thesis
    by (simp add: find_char_def)
qed

lemma address_ip:
  "substr (dotted v @ '':'' @ to_string (sint (p :: 32 word))) 0
     (find_char (dotted v @ '':'' @ to_string (sint p)) (CHR '':'')) = Inr (dotted v)"
  using dotted_no_colon [of v] by (simp add: find_char_colon substr_def)

lemma address_port:
  "substr (dotted v @ '':'' @ to_string (sint (p :: 32 word)))
     (size_t_add (find_char (dotted v @ '':'' @ to_string (sint p)) (CHR '':'')) 1) npos
   = Inr (to_string (sint p))"
proof -
  have f: "find_char (dotted v @ '':'' @ to_string (sint p)) (CHR '':'') = length (dotted v)"
    using dotted_no_colon [of v] by (simp add: find_char_colon)
  have "size_t_add (length (dotted v)) 1 = Suc (length (dotted v))"
    using dotted_length [of v] by (simp add: size_t_add_def)
  moreover have "length (to_string (sint p)) \<le> npos"
    using to_string_int_length [of p] by (simp add: npos_def)
  ultimately show ?thesis
    unfolding f by (simp add: substr_def)
qed

lemma receive_file_unfold:
  "receive_file w d =
     (case recv w d 1024 of
        (recv_error, w') \<Rightarrow> w'
      | (recv_bytes buffer, w') \<Rightarrow>
          if 0 < length buffer then receive_file (fwrite w' buffer) d else w')"
  by (rule receive_file.simps)

lemma receive_file_closed: "d < 0 \<Longrightarrow> receive_file w d = w"
  by (subst receive_file_unfold) (simp add: recv_def)

lemma receive_file_drains:
  assumes "0 \<le> d" and "file_content w = Some f"
  shows "receive_file w d =
      w\<lparr>inbox := (inbox w)(d := unread (inbox w d)),
        file_content := Some (f @ received (inbox w d))\<rparr>"
  using assms
proof (induction "script_size (inbox w d)" arbitrary: w f rule: less_induct)
  case less
  note d = \<open>0 \<le> d\<close> and f = \<open>file_content w = Some f\<close>
  show ?case
  proof (cases "inbox w d")
    case Nil
    with d f show ?thesis
      by (subst receive_file_unfold) (simp add: recv_def received_def unread_def)
  next
    case (Cons r rest)
    show ?thesis
    proof (cases r)
      case recv_error
      with Cons d f show ?thesis
        by (subst receive_file_unfold) (simp add: recv_def received_def unread_def)
    next
      case (recv_bytes bs)
      show ?thesis
      proof (cases "bs = []")
        case True
        with recv_bytes Cons d f show ?thesis
          by (subst receive_file_unfold) (simp add: recv_def received_def unread_def)
      next
        case False
        show ?thesis
        proof (cases "length bs \<le> 1024")
          case True
          let ?w = "fwrite (w\<lparr>inbox := (inbox w)(d := rest)\<rparr>) bs"
          have step: "receive_file w d = receive_file ?w d"
            using True False recv_bytes Cons d
            by (subst receive_file_unfold) (simp add: recv_def)
          have small: "script_size (inbox ?w d) < script_size (inbox w d)"
            using Cons recv_bytes by (simp add: fwrite_def script_size_def)
          have fc: "file_content ?w = Some (f @ bs)"
            using f by (simp add: fwrite_def)
          have "receive_file ?w d =
              ?w\<lparr>inbox := (inbox ?w)(d := unread (inbox ?w d)),
                file_content := Some ((f @ bs) @ received (inbox ?w d))\<rparr>"
            using small d fc by (rule less.hyps)
          with step False recv_bytes Cons show ?thesis
            by (simp add: fwrite_def received_def unread_def)
        next
          case long: False
          let ?w = "fwrite (w\<lparr>inbox := (inbox w)(d := recv_bytes (drop 1024 bs) # rest)\<rparr>)
              (take 1024 bs)"
          have step: "receive_file w d = receive_file ?w d"
            using long False recv_bytes Cons d
            by (subst receive_file_unfold) (simp add: recv_def)
          have small: "script_size (inbox ?w d) < script_size (inbox w d)"
            using Cons recv_bytes long by (simp add: fwrite_def script_size_def)
          have fc: "file_content ?w = Some (f @ take 1024 bs)"
            using f by (simp add: fwrite_def)
          have "receive_file ?w d =
              ?w\<lparr>inbox := (inbox ?w)(d := unread (inbox ?w d)),
                file_content := Some ((f @ take 1024 bs) @ received (inbox ?w d))\<rparr>"
            using small d fc by (rule less.hyps)
          with step False long recv_bytes Cons show ?thesis
            by (simp add: fwrite_def received_def unread_def)
        qed
      qed
    qed
  qed
qed

lemma send_ftp_command_frame:
  "fopen_ok (send_ftp_command w sockfd c) = fopen_ok w"
  "uninit (send_ftp_command w sockfd c) = uninit w"
  "inbox (send_ftp_command w sockfd c) = inbox w"
  "console_out (send_ftp_command w sockfd c) = console_out w"
  "connect_results (send_ftp_command w sockfd c) = connect_results w"
  "connect_attempts (send_ftp_command w sockfd c) = connect_attempts w"
  "length (sent (send_ftp_command w sockfd c)) \<le> Suc (length (sent w))"
  by (simp_all add: send_ftp_command_def send_def print_err_def Let_def split: list.splits)

lemma send_ftp_command_sent:
  assumes "0 \<le> sockfd" and "send_results w = []"
  shows "sent (send_ftp_command w sockfd c) = sent w @ [(sockfd, c @ [CHR 0x0D, CHR 0x0A])]"
    and "send_results (send_ftp_command w sockfd c) = []"
  using assms by (simp_all add: send_ftp_command_def send_def)

lemma recv_length: "fst (recv w sockfd len) = recv_bytes bs \<Longrightarrow> length bs \<le> len"
  by (cases "(inbox w sockfd, len)" rule: script_recv.cases)
    (auto simp: recv_def split: if_splits)

lemma recv_frame:
  "fopen_ok (snd (recv w sockfd len)) = fopen_ok w"
  "uninit (snd (recv w sockfd len)) = uninit w"
  "console_out (snd (recv w sockfd len)) = console_out w"
  "connect_results (snd (recv w sockfd len)) = connect_results w"
  "connect_attempts (snd (recv w sockfd len)) = connect_attempts w"
  "sent (snd (recv w sockfd len)) = sent w"
  "send_results (snd (recv w sockfd len)) = send_results w"
  "d \<noteq> sockfd \<Longrightarrow> inbox (snd (recv w sockfd len)) d = inbox w d"
  by (simp_all add: recv_def split_beta)

lemma receive_ftp_response_value:
  "fst (receive_ftp_response w sockfd) =
     (case fst (recv w sockfd 4095) of
        recv_error \<Rightarrow> []
      | recv_bytes buffer \<Rightarrow> takeWhile (\<lambda>c. c \<noteq> CHR 0x00) buffer)"
  by (cases "recv w sockfd 4095") (simp add: receive_ftp_response_def split: recv_result.splits)

lemma receive_ftp_response_inbox:
  "inbox (snd (receive_ftp_response w sockfd)) = inbox (snd (recv w sockfd 4095))"
  by (cases "recv w sockfd 4095")
    (simp add: receive_ftp_response_def print_err_def split: recv_result.splits)

lemma receive_ftp_response_frame:
  "fopen_ok (snd (receive_ftp_response w sockfd)) = fopen_ok w"
  "uninit (snd (receive_ftp_response w sockfd)) = uninit w"
  "console_out (snd (receive_ftp_response w sockfd)) = console_out w"
  "connect_results (snd (receive_ftp_response w sockfd)) = connect_results w"
  "connect_attempts (snd (receive_ftp_response w sockfd)) = connect_attempts w"
  "sent (snd (receive_ftp_response w sockfd)) = sent w"
  "send_results (snd (receive_ftp_response w sockfd)) = send_results w"
  using recv_frame(1-7) [of w sockfd 4095]
  by (cases "recv w sockfd 4095";
      simp add: receive_ftp_response_def print_err_def split: recv_result.splits)+

lemma receive_ftp_response_other:
  "d \<noteq> sockfd \<Longrightarrow> inbox (snd (receive_ftp_response w sockfd)) d = inbox w d"
  by (simp add: receive_ftp_response_inbox recv_frame)

lemma receive_ftp_response_length: "length (fst (receive_ftp_response w sockfd)) \<le> 4095"
proof (cases "fst (recv w sockfd 4095)")
  case recv_error
  then show ?thesis by (simp add: receive_ftp_response_value)
next
  case (recv_bytes bs)
  then have "length bs \<le> 4095"
    by (rule recv_length)
  moreover have "length (takeWhile (\<lambda>c. c \<noteq> CHR 0x00) bs) \<le> length bs"
    by (rule length_takeWhile_le)
  ultimately show ?thesis
    using recv_bytes by (simp add: receive_ftp_response_value)
qed

lemma find_bound: "find_char str c = npos \<or> find_char str c < length str"
proof (cases "c \<in> set str")
  case True
  then have "length (takeWhile (\<lambda>x. x \<noteq> c) str) < length str"
    by (induction str) auto
  with True show ?thesis by (simp add: find_char_def)
next
  case False
  then show ?thesis by (simp add: find_char_def)
qed

lemma start_pos_bound:
  assumes "length str \<le> 4095"
  shows "size_t_add (find_char str c) 1 \<le> length str"
proof -
  from find_bound [of str c] show ?thesis
  proof
    assume "find_char str c = npos"
    then show ?thesis by (simp add: size_t_add_def npos_def)
  next
    assume "find_char str c < length str"
    with assms show ?thesis by (simp add: size_t_add_def)
  qed
qed

lemma enter_passive_mode_unfold:
  "enter_passive_mode w sockfd =
     (let w1 = send_ftp_command w sockfd ''PASV'';
          response = fst (receive_ftp_response w1 sockfd);
          w3 = print_out (snd (receive_ftp_response w1 sockfd)) (''Response: '' @ response);
          start_pos = size_t_add (find_char response (CHR ''('')) 1;
          passive_info = take (size_t_sub (find_char response (CHR '')'')) start_pos)
                           (drop start_pos response);
          v = assigned (sscanf_ints 6 passive_info) (uninit w)
      in (Inr (dotted v @ '':'' @ to_string (sint (v 4 * 256 + v 5))),
          print_out w3 (''Data Connection IP: '' @ dotted v @ '', Port: ''
                        @ to_string (sint (v 4 * 256 + v 5)))))"
proof -
  let ?w1 = "send_ftp_command w sockfd ''PASV''"
  let ?response = "fst (receive_ftp_response ?w1 sockfd)"
  have "length ?response \<le> 4095"
    by (rule receive_ftp_response_length)
  then have "size_t_add (find_char ?response (CHR ''('')) 1 \<le> length ?response"
    by (rule start_pos_bound)
  then have ok: "\<not> length ?response < size_t_add (find_char ?response (CHR ''('')) 1"
    by simp
  have u: "uninit (print_out (snd (receive_ftp_response ?w1 sockfd)) x) = uninit w" for x
    by (simp add: print_out_def receive_ftp_response_frame send_ftp_command_frame)
  show ?thesis
    using ok by (simp add: enter_passive_mode_def split_beta Let_def substr_def u)
qed

lemma enter_passive_mode_address:
  "\<exists>v p. fst (enter_passive_mode w sockfd) = Inr (dotted v @ '':'' @ to_string (sint (p :: 32 word)))"
  by (simp add: enter_passive_mode_unfold Let_def) blast

lemma enter_passive_mode_frame:
  "fopen_ok (snd (enter_passive_mode w sockfd)) = fopen_ok w"
  "connect_results (snd (enter_passive_mode w sockfd)) = connect_results w"
  "connect_attempts (snd (enter_passive_mode w sockfd)) = connect_attempts w"
  "length (sent (snd (enter_passive_mode w sockfd))) \<le> Suc (length (sent w))"
  "sent (snd (enter_passive_mode w sockfd)) = sent (send_ftp_command w sockfd ''PASV'')"
  "send_results (snd (enter_passive_mode w sockfd)) = send_results (send_ftp_command w sockfd ''PASV'')"
  by (simp_all add: enter_passive_mode_unfold Let_def print_out_def receive_ftp_response_frame
      send_ftp_command_frame)

lemma enter_passive_mode_other:
  "d \<noteq> sockfd \<Longrightarrow> inbox (snd (enter_passive_mode w sockfd)) d = inbox w d"
  by (simp add: enter_passive_mode_unfold Let_def print_out_def receive_ftp_response_other
      send_ftp_command_frame)

lemma create_control_socket_frame:
  "fopen_ok (snd (create_control_socket w ip port)) = fopen_ok w"
  "inbox (snd (create_control_socket w ip port)) = inbox w"
  "sent (snd (create_control_socket w ip port)) = sent w"
  "send_results (snd (create_control_socket w ip port)) = send_results w"
  by (simp_all add: create_control_socket_def print_err_def
      split: list.splits connect_outcome.splits)

lemma create_control_socket_attempts:
  "connect_attempts (snd (create_control_socket w ip port)) =
     connect_attempts w @
       (case connect_results w of
          [] \<Rightarrow> []
        | socket_failed # rest \<Rightarrow> []
        | connect_failed d # rest \<Rightarrow> [(ip, port mod 65536)]
        | connect_ok d # rest \<Rightarrow> [(ip, port mod 65536)])"
  by (simp add: create_control_socket_def print_err_def
      split: list.splits connect_outcome.splits)

lemma create_control_socket_connected:
  "connect_results w = connect_ok d # rest \<Longrightarrow> fst (create_control_socket w ip port) = d"
  by (simp add: create_control_socket_def)

lemma received_file:
  assumes "file_content w = Some []"
  shows "\<exists>box content. receive_file w d = w\<lparr>inbox := box, file_content := content\<rparr>"
proof (cases "0 \<le> d")
  case True
  with assms have "receive_file w d =
      w\<lparr>inbox := (inbox w)(d := unread (inbox w d)),
        file_content := Some ([] @ received (inbox w d))\<rparr>"
    by (intro receive_file_drains)
  then show ?thesis
    by blast
next
  case False
  then have "receive_file w d = w\<lparr>inbox := inbox w, file_content := file_content w\<rparr>"
    by (simp add: receive_file_closed)
  then show ?thesis
    by blast
qed

lemma download_body_frame:
  "sent (download_body w sockfd d remote_file local_file) =
     sent (send_ftp_command w sockfd (''RETR '' @ remote_file))"
  "connect_attempts (download_body w sockfd d remote_file local_file) = connect_attempts w"
proof -
  let ?w1 = "send_ftp_command w sockfd (''RETR '' @ remote_file)"
  let ?w3 = "print_out (snd (receive_ftp_response ?w1 sockfd))
      (''Response: '' @ fst (receive_ftp_response ?w1 sockfd))"
  let ?w4 = "?w3\<lparr>file_content := Some []\<rparr>"
  have "file_content ?w4 = Some []"
    by simp
  then obtain box content where r: "receive_file ?w4 d = ?w4\<lparr>inbox := box, file_content := content\<rparr>"
    using received_file by blast
  have s3: "sent ?w3 = sent ?w1" "connect_attempts ?w3 = connect_attempts w"
    by (simp_all add: print_out_def receive_ftp_response_frame send_ftp_command_frame)
  from r have s5: "sent (receive_file ?w4 d) = sent ?w4"
    "connect_attempts (receive_file ?w4 d) = connect_attempts ?w4"
    by simp_all
  show "sent (download_body w sockfd d remote_file local_file) = sent ?w1"
    using s3 s5 by (simp add: download_body_def Let_def split_beta print_out_def print_err_def)
  show "connect_attempts (download_body w sockfd d remote_file local_file) = connect_attempts w"
    using s3 s5 by (simp add: download_body_def Let_def split_beta print_out_def print_err_def)
qed

lemma download_body_success:
  assumes "fopen_ok w"
  shows "last (console_out (download_body w sockfd d remote_file local_file)) =
      ''File downloaded successfully.''"
  using assms
  by (simp add: download_body_def Let_def split_beta print_out_def receive_ftp_response_frame
      send_ftp_command_frame)

lemma download_body_file:
  assumes "fopen_ok w" and "0 \<le> d" and "d \<noteq> sockfd"
  shows "file_content (download_body w sockfd d remote_file local_file) = Some (received (inbox w d))
    \<and> inbox (download_body w sockfd d remote_file local_file) d = unread (inbox w d)"
proof -
  let ?w1 = "send_ftp_command w sockfd (''RETR '' @ remote_file)"
  let ?w3 = "print_out (snd (receive_ftp_response ?w1 sockfd))
      (''Response: '' @ fst (receive_ftp_response ?w1 sockfd))"
  let ?w4 = "?w3\<lparr>file_content := Some []\<rparr>"
  have box: "inbox ?w4 d = inbox w d"
    using assms(3) by (simp add: print_out_def receive_ftp_response_other send_ftp_command_frame)
  have "file_content ?w4 = Some []"
    by simp
  with assms(2) have "receive_file ?w4 d =
      ?w4\<lparr>inbox := (inbox ?w4)(d := unread (inbox ?w4 d)),
        file_content := Some ([] @ received (inbox ?w4 d))\<rparr>"
    by (rule receive_file_drains)
  with assms(1) box show ?thesis
    by (simp add: download_body_def Let_def split_beta print_out_def receive_ftp_response_frame
        send_ftp_command_frame)
qed

lemma download_body_no_connection:
  assumes "fopen_ok w" and "d < 0"
  shows "file_content (download_body w sockfd d remote_file local_file) = Some []"
  using assms
  by (simp add: download_body_def Let_def split_beta print_out_def receive_ftp_response_frame
      send_ftp_command_frame receive_file_closed)

lemma ftp_download_file_address:
  assumes "fst (enter_passive_mode w sockfd) =
      Inr (dotted v @ '':'' @ to_string (sint (p :: 32 word)))"
  shows "ftp_download_file w sockfd remote_file local_file =
     (None,
      download_body (snd (create_control_socket (snd (enter_passive_mode w sockfd)) (dotted v) (sint p)))
        sockfd (fst (create_control_socket (snd (enter_passive_mode w sockfd)) (dotted v) (sint p)))
        remote_file local_file)"
proof -
  obtain r w1 where e: "enter_passive_mode w sockfd = (r, w1)"
    by (cases "enter_passive_mode w sockfd")
  with assms have r: "r = Inr (dotted v @ '':'' @ to_string (sint p))"
    by simp
  show ?thesis
    unfolding ftp_download_file_def e r
    by (simp only: prod.case sum.case address_ip address_port stoi_port split_beta snd_conv
        fst_conv Let_def)
qed

text \<open>
  Claim C4. The client handles no partial transfer, retry or malformed reply.
  \<^item> \<open>receive_ftp_response\<close> consumes exactly one \<open>recv\<close>, and returns what that one gave up to
    its first zero byte; on failure it returns the empty string, the value it also
    returns for an empty reply.
  \<^item> \<open>enter_passive_mode\<close> returns an address for every reply to the \<open>PASV\<close> it sent, and no
    exception leaves it: the text between the position after the first \<open>(\<close> and the
    first \<open>)\<close> of the reply, found by \<open>find\<close> with the arithmetic of \<open>size_t\<close> when one is
    missing, goes to \<open>sscanf\<close>; the address is made of what \<open>sscanf\<close> converted and, for the
    conversions that did not happen, of what the variables held before.
  \<^item> No exception leaves \<open>ftp_download_file\<close>. It tries to connect at most once, to that
    address with the port taken modulo 65536, and never again. When \<open>fopen\<close> succeeded, its
    last line on \<open>std::cout\<close> is \<open>File downloaded successfully.\<close>, whatever was received;
    and when moreover the data connection was made, on a descriptor \<open>d\<close> other than the
    control connection's, the file holds the bytes of the results of \<open>recv\<close> before the
    first one that is \<open><= 0\<close>, and what the data connection delivers after that one is
    never read. At most two commands are sent; when every \<open>send\<close> succeeds they are \<open>PASV\<close>
    and \<open>RETR\<close>, once each.
\<close>

theorem ftp_client_no_failure_handling:
  "let response = fst (receive_ftp_response (send_ftp_command w sockfd ''PASV'') sockfd);
       start_pos = size_t_add (find_char response (CHR ''('')) 1;
       passive_info = take (size_t_sub (find_char response (CHR '')'')) start_pos)
                        (drop start_pos response);
       v = assigned (sscanf_ints 6 passive_info) (uninit w);
       data_ip = dotted v;
       data_port = sint (v 4 * 256 + v 5);
       run = ftp_download_file w sockfd remote_file local_file
   in inbox (snd (receive_ftp_response w sockfd)) = inbox (snd (recv w sockfd 4095))
    \<and> fst (receive_ftp_response w sockfd) =
        (case fst (recv w sockfd 4095) of
           recv_error \<Rightarrow> []
         | recv_bytes buffer \<Rightarrow> takeWhile (\<lambda>c. c \<noteq> CHR 0x00) buffer)
    \<and> fst (enter_passive_mode w sockfd) = Inr (data_ip @ '':'' @ to_string data_port)
    \<and> fst run = None
    \<and> connect_attempts (snd run) =
        connect_attempts w @
          (case connect_results w of
             [] \<Rightarrow> []
           | socket_failed # rest \<Rightarrow> []
           | connect_failed d # rest \<Rightarrow> [(data_ip, data_port mod 65536)]
           | connect_ok d # rest \<Rightarrow> [(data_ip, data_port mod 65536)])
    \<and> (fopen_ok w \<longrightarrow> last (console_out (snd run)) = ''File downloaded successfully.'')
    \<and> (fopen_ok w \<and> connect_results w = connect_ok d # rest \<and> 0 \<le> d \<and> d \<noteq> sockfd \<longrightarrow>
         file_content (snd run) = Some (received (inbox w d))
         \<and> inbox (snd run) d = unread (inbox w d))
    \<and> (0 \<le> sockfd \<and> send_results w = [] \<longrightarrow>
         sent (snd run) =
           sent w @ [(sockfd, ''PASV'' @ [CHR 0x0D, CHR 0x0A]),
                     (sockfd, ''RETR '' @ remote_file @ [CHR 0x0D, CHR 0x0A])])
    \<and> length (sent (snd run)) \<le> length (sent w) + 2"
proof -
  let ?response = "fst (receive_ftp_response (send_ftp_command w sockfd ''PASV'') sockfd)"
  let ?start = "size_t_add (find_char ?response (CHR ''('')) 1"
  let ?info = "take (size_t_sub (find_char ?response (CHR '')'')) ?start) (drop ?start ?response)"
  let ?v = "assigned (sscanf_ints 6 ?info) (uninit w)"
  let ?ip = "dotted ?v"
  let ?p = "?v 4 * 256 + ?v 5"
  let ?run = "ftp_download_file w sockfd remote_file local_file"
  let ?w1 = "snd (enter_passive_mode w sockfd)"
  let ?w2 = "snd (create_control_socket ?w1 ?ip (sint ?p))"
  let ?fd = "fst (create_control_socket ?w1 ?ip (sint ?p))"
  have address: "fst (enter_passive_mode w sockfd) = Inr (?ip @ '':'' @ to_string (sint ?p))"
    by (simp add: enter_passive_mode_unfold Let_def)
  then have run: "?run = (None, download_body ?w2 sockfd ?fd remote_file local_file)"
    by (rule ftp_download_file_address)
  have returns: "fst ?run = None"
    by (simp add: run)
  have attempts: "connect_attempts (snd ?run) =
      connect_attempts w @
        (case connect_results w of
           [] \<Rightarrow> []
         | socket_failed # rest \<Rightarrow> []
         | connect_failed d # rest \<Rightarrow> [(?ip, sint ?p mod 65536)]
         | connect_ok d # rest \<Rightarrow> [(?ip, sint ?p mod 65536)])"
    by (simp only: run snd_conv download_body_frame create_control_socket_attempts
        enter_passive_mode_frame)
  have ok2: "fopen_ok ?w2 = fopen_ok w"
    by (simp add: create_control_socket_frame enter_passive_mode_frame)
  have success: "fopen_ok w \<longrightarrow> last (console_out (snd ?run)) = ''File downloaded successfully.''"
  proof
    assume "fopen_ok w"
    then have "fopen_ok ?w2"
      by (simp only: ok2)
    then have "last (console_out (download_body ?w2 sockfd ?fd remote_file local_file)) =
        ''File downloaded successfully.''"
      by (rule download_body_success)
    then show "last (console_out (snd ?run)) = ''File downloaded successfully.''"
      by (simp only: run snd_conv)
  qed
  have content: "fopen_ok w \<and> connect_results w = connect_ok d # rest \<and> 0 \<le> d \<and> d \<noteq> sockfd \<longrightarrow>
      file_content (snd ?run) = Some (received (inbox w d))
      \<and> inbox (snd ?run) d = unread (inbox w d)"
  proof
    assume a: "fopen_ok w \<and> connect_results w = connect_ok d # rest \<and> 0 \<le> d \<and> d \<noteq> sockfd"
    then have "connect_results ?w1 = connect_ok d # rest"
      by (simp add: enter_passive_mode_frame)
    then have fd: "?fd = d"
      by (rule create_control_socket_connected)
    from a have box: "inbox ?w2 d = inbox w d"
      by (simp add: create_control_socket_frame enter_passive_mode_other)
    from a have fo: "fopen_ok w" and d0: "0 \<le> d" and dn: "d \<noteq> sockfd"
      by blast+
    from fo have "fopen_ok ?w2"
      by (simp only: ok2)
    from this d0 dn have "file_content (download_body ?w2 sockfd d remote_file local_file) =
        Some (received (inbox ?w2 d))
      \<and> inbox (download_body ?w2 sockfd d remote_file local_file) d = unread (inbox ?w2 d)"
      by (rule download_body_file)
    then show "file_content (snd ?run) = Some (received (inbox w d))
      \<and> inbox (snd ?run) d = unread (inbox w d)"
      by (simp only: run snd_conv fd box)
  qed
  have sent_run: "sent (snd ?run) =
      sent (send_ftp_command ?w2 sockfd (''RETR '' @ remote_file))"
    by (simp only: run snd_conv download_body_frame)
  have commands: "0 \<le> sockfd \<and> send_results w = [] \<longrightarrow>
      sent (snd ?run) =
        sent w @ [(sockfd, ''PASV'' @ [CHR 0x0D, CHR 0x0A]),
                  (sockfd, ''RETR '' @ remote_file @ [CHR 0x0D, CHR 0x0A])]"
  proof
    assume a: "0 \<le> sockfd \<and> send_results w = []"
    then have s1: "sent ?w1 = sent w @ [(sockfd, ''PASV'' @ [CHR 0x0D, CHR 0x0A])]"
      and r1: "send_results ?w1 = []"
      by (simp_all add: enter_passive_mode_frame send_ftp_command_sent)
    then have s2: "sent ?w2 = sent w @ [(sockfd, ''PASV'' @ [CHR 0x0D, CHR 0x0A])]"
      and r2: "send_results ?w2 = []"
      by (simp_all add: create_control_socket_frame)
    from a r2 have "sent (send_ftp_command ?w2 sockfd (''RETR '' @ remote_file)) =
        sent ?w2 @ [(sockfd, (''RETR '' @ remote_file) @ [CHR 0x0D, CHR 0x0A])]"
      by (intro send_ftp_command_sent) simp_all
    then show "sent (snd ?run) =
        sent w @ [(sockfd, ''PASV'' @ [CHR 0x0D, CHR 0x0A]),
                  (sockfd, ''RETR '' @ remote_file @ [CHR 0x0D, CHR 0x0A])]"
      by (simp only: sent_run s2) simp
  qed
  have "length (sent (send_ftp_command ?w2 sockfd (''RETR '' @ remote_file)))
      \<le> Suc (length (sent ?w2))"
    by (rule send_ftp_command_frame)
  moreover have "length (sent ?w2) \<le> Suc (length (sent w))"
    by (simp add: create_control_socket_frame enter_passive_mode_frame(4))
  ultimately have count: "length (sent (snd ?run)) \<le> length (sent w) + 2"
    unfolding sent_run by linarith
  from receive_ftp_response_inbox [of w sockfd] receive_ftp_response_value [of w sockfd]
    address returns attempts success content commands count
  show ?thesis
    unfolding Let_def by (intro conjI)
qed

lemma ftp_demo_response:
  "fst (receive_ftp_response (send_ftp_command ftp_demo 3 ''PASV'') 3) =
     ''227 Entering Passive Mode (192,168,1,1,19,200)''"
  by (simp add: ftp_demo_def ftp_world0_def send_ftp_command_def send_def receive_ftp_response_def
      recv_def)

lemma ftp_demo_info:
  "take (size_t_sub (find_char ''227 Entering Passive Mode (192,168,1,1,19,200)'' (CHR '')''))
      (size_t_add (find_char ''227 Entering Passive Mode (192,168,1,1,19,200)'' (CHR ''('')) 1))
    (drop (size_t_add (find_char ''227 Entering Passive Mode (192,168,1,1,19,200)'' (CHR ''('')) 1)
      ''227 Entering Passive Mode (192,168,1,1,19,200)'') = ''192,168,1,1,19,200''"
  by (simp add: find_char_def size_t_add_def size_t_sub_def)

lemma ftp_demo_scanned: "sscanf_ints 6 ''192,168,1,1,19,200'' = [192, 168, 1, 1, 19, 200]"
  by (simp add: scan_int_def is_space_def is_digit_def digits_value_def store_int_def
      LONG_MIN_def LONG_MAX_def numeral_nat)

lemma store_int_wraps: "store_int 99999999999 = 1215752191 \<and> store_int 5 = 5"
  by (simp add: store_int_def LONG_MIN_def LONG_MAX_def)

lemma sscanf_ints_scans: "sscanf_ints 2 ''5,99999999999'' = [store_int 5, store_int 99999999999]"
  by (simp add: scan_int_def is_space_def is_digit_def digits_value_def numeral_nat)

lemma sscanf_ints_wraps: "sscanf_ints 2 ''5,99999999999'' = [5, 1215752191]"
  by (simp only: sscanf_ints_scans store_int_wraps)

lemma ftp_demo_world:
  "fopen_ok ftp_demo \<and> connect_results ftp_demo = [connect_ok 4] \<and> send_results ftp_demo = []
   \<and> sent ftp_demo = [] \<and> connect_attempts ftp_demo = [] \<and> uninit ftp_demo = (\<lambda>k. 0)
   \<and> received (inbox ftp_demo 4) = ''hello wor'' \<and> unread (inbox ftp_demo 4) = [recv_bytes ''ld'']"
  by (simp add: ftp_demo_def ftp_world0_def received_def unread_def)

lemma ftp_demo_address:
  "dotted (assigned [192, 168, 1, 1, 19, 200] (\<lambda>k. 0)) = ''192.168.1.1''
   \<and> sint (assigned [192, 168, 1, 1, 19, 200] (\<lambda>k. 0) 4 * 256
        + assigned [192, 168, 1, 1, 19, 200] (\<lambda>k. 0) 5) = 5064
   \<and> to_string 5064 = ''5064''"
  by (simp add: assigned_def dotted_def to_string_def digits.simps digit_char_def)

lemma ftp_malformed_response:
  "fst (receive_ftp_response (send_ftp_command ftp_malformed 3 ''PASV'') 3) = ''500 Syntax error''"
  by (simp add: ftp_malformed_def ftp_world0_def send_ftp_command_def send_def
      receive_ftp_response_def recv_def)

lemma ftp_malformed_info:
  "take (size_t_sub (find_char ''500 Syntax error'' (CHR '')''))
      (size_t_add (find_char ''500 Syntax error'' (CHR ''('')) 1))
    (drop (size_t_add (find_char ''500 Syntax error'' (CHR ''('')) 1) ''500 Syntax error'')
   = ''500 Syntax error''"
proof -
  have a: "find_char ''500 Syntax error'' (CHR ''('') = npos"
    and b: "find_char ''500 Syntax error'' (CHR '')'') = npos"
    by (simp_all add: find_char_def)
  have c: "size_t_add npos 1 = 0"
    by (simp add: size_t_add_def npos_def)
  have d: "size_t_sub npos 0 = npos"
    by (simp add: size_t_sub_def npos_def)
  have e: "take npos ''500 Syntax error'' = ''500 Syntax error''"
    by (rule take_all) (simp add: npos_def)
  show ?thesis
    by (simp only: a b c d e drop_0)
qed

lemma ftp_malformed_scanned: "sscanf_ints 6 ''500 Syntax error'' = [500]"
  by (simp add: scan_int_def is_space_def is_digit_def digits_value_def store_int_def
      LONG_MIN_def LONG_MAX_def numeral_nat)

lemma ftp_malformed_world:
  "connect_results ftp_malformed = [connect_ok 4] \<and> connect_attempts ftp_malformed = []
   \<and> uninit ftp_malformed = (\<lambda>k. 7)"
  by (simp add: ftp_malformed_def ftp_world0_def)

lemma ftp_malformed_address:
  "dotted (assigned [500] (\<lambda>k. 7)) = ''500.7.7.7''
   \<and> sint (assigned [500] (\<lambda>k. 7) 4 * 256 + assigned [500] (\<lambda>k. 7) 5) = 1799
   \<and> to_string 1799 = ''1799''"
  by (simp add: assigned_def dotted_def to_string_def digits.simps digit_char_def)

theorem ftp_client_no_failure_handling_witness:
  "fst (enter_passive_mode ftp_demo 3) = Inr ''192.168.1.1:5064''
   \<and> fst (ftp_download_file ftp_demo 3 ''a.txt'' ''b.txt'') = None
   \<and> connect_attempts (snd (ftp_download_file ftp_demo 3 ''a.txt'' ''b.txt'')) = [(''192.168.1.1'', 5064)]
   \<and> last (console_out (snd (ftp_download_file ftp_demo 3 ''a.txt'' ''b.txt''))) = ''File downloaded successfully.''
   \<and> file_content (snd (ftp_download_file ftp_demo 3 ''a.txt'' ''b.txt'')) = Some ''hello wor''
   \<and> inbox (snd (ftp_download_file ftp_demo 3 ''a.txt'' ''b.txt'')) 4 = [recv_bytes ''ld'']
   \<and> sent (snd (ftp_download_file ftp_demo 3 ''a.txt'' ''b.txt''))
       = [(3, ''PASV'' @ [CHR 0x0D, CHR 0x0A]), (3, ''RETR a.txt'' @ [CHR 0x0D, CHR 0x0A])]
   \<and> fst (enter_passive_mode ftp_malformed 3) = Inr ''500.7.7.7:1799''
   \<and> fst (ftp_download_file ftp_malformed 3 ''a.txt'' ''b.txt'') = None
   \<and> connect_attempts (snd (ftp_download_file ftp_malformed 3 ''a.txt'' ''b.txt'')) = [(''500.7.7.7'', 1799)]"
proof -
  note demo = ftp_client_no_failure_handling [of ftp_demo 3 "''a.txt''" "''b.txt''" 4 "[]",
      unfolded Let_def ftp_demo_response ftp_demo_info ftp_demo_scanned ftp_demo_world
        ftp_demo_address]
  note malformed = ftp_client_no_failure_handling [of ftp_malformed 3 "''a.txt''" "''b.txt''" 4 "[]",
      unfolded Let_def ftp_malformed_response ftp_malformed_info ftp_malformed_scanned
        ftp_malformed_world ftp_malformed_address]
  from demo malformed show ?thesis
    by (simp add: ftp_demo_world ftp_malformed_world ftp_demo_address ftp_malformed_address)
qed

end
